theory Spec2Isabelle
  imports Main "HOL-Library.Multiset" "HOL-Library.Sublist"
begin

section \<open>Data model\<close>

text \<open>
  A snapshot as \<^verbatim>\<open>get_digitalocean_snapshots\<close> and \<^verbatim>\<open>get_hetzner_snapshots\<close> build it:
  the dictionary \<^verbatim>\<open>{"id": ..., "name": ..., "created_at": ...}\<close>. The creation time is
  a timezone-aware datetime normalised to UTC; two of them compare as instants, so the
  model keeps the instant as an integer (microseconds since the epoch).
\<close>

record snapshot =
  snap_id :: string
  snap_name :: string
  created_at :: int

section \<open>Retention selector\<close>

text \<open>
  \<^verbatim>\<open>snapshots.sort(key=lambda x: x['created_at'], reverse=True)\<close>: Python's sort is
  stable; with \<^verbatim>\<open>reverse=True\<close> the list is reversed, sorted stably in ascending order
  of the key and reversed again, so records with equal keys keep their original order.
\<close>

definition sort_reverse :: "snapshot list \<Rightarrow> snapshot list" where
  "sort_reverse snapshots = rev (sort_key created_at (rev snapshots))"

text \<open>
  \<^verbatim>\<open>xs[i:]\<close> for a Python integer \<open>i\<close>: a negative start counts from the end, and a
  start outside the list is clamped.
\<close>

definition slice_from :: "'a list \<Rightarrow> int \<Rightarrow> 'a list" where
  "slice_from xs i =
     (if i < 0 then drop (nat (int (length xs) + i)) xs else drop (nat i) xs)"

text \<open>The complementary slice \<^verbatim>\<open>xs[:i]\<close>: the entries that \<^verbatim>\<open>xs[i:]\<close> leaves out.\<close>

definition slice_to :: "'a list \<Rightarrow> int \<Rightarrow> 'a list" where
  "slice_to xs i =
     (if i < 0 then take (nat (int (length xs) + i)) xs else take (nat i) xs)"

text \<open>
  \<^verbatim>\<open>identify_snapshots_to_delete(self, server, snapshots, retain)\<close>. The method sorts the
  caller's list in place and returns a slice of it, so the model returns a pair: the
  list \<^verbatim>\<open>to_delete\<close> that the method returns, and the caller's list as the call leaves
  it. The method's other effect is a group of INFO log lines, and the server argument is
  read for nothing else.
\<close>

definition identify_snapshots_to_delete ::
  "snapshot list \<Rightarrow> int \<Rightarrow> snapshot list \<times> snapshot list" where
  "identify_snapshots_to_delete snapshots retain =
     (let snapshots' = sort_reverse snapshots;
          to_delete = slice_from snapshots' retain
      in (to_delete, snapshots'))"

text \<open>The records that a call keeps: the first \<^verbatim>\<open>retain\<close> entries of the sorted list.\<close>

definition kept_snapshots :: "snapshot list \<Rightarrow> int \<Rightarrow> snapshot list" where
  "kept_snapshots snapshots retain =
     slice_to (snd (identify_snapshots_to_delete snapshots retain)) retain"

definition descending :: "snapshot list \<Rightarrow> bool" where
  "descending xs = sorted_wrt (\<lambda>a b. created_at b \<le> created_at a) xs"

subsection \<open>Facts about the sort and the slices\<close>

lemma mset_sort_reverse: "mset (sort_reverse xs) = mset xs"
  by (simp add: sort_reverse_def)

lemma length_sort_reverse: "length (sort_reverse xs) = length xs"
  by (simp add: sort_reverse_def)

lemma set_sort_reverse: "set (sort_reverse xs) = set xs"
  by (simp add: sort_reverse_def)

lemma descending_sort_reverse: "descending (sort_reverse xs)"
proof -
  have "sorted (map created_at (sort_key created_at (rev xs)))"
    by (rule sorted_sort_key)
  then have "sorted_wrt (\<lambda>a b. created_at a \<le> created_at b) (sort_key created_at (rev xs))"
    by (simp add: sorted_wrt_map)
  then have "sorted_wrt (\<lambda>a b. created_at b \<le> created_at a)
               (rev (sort_key created_at (rev xs)))"
    by (simp add: sorted_wrt_rev)
  then show ?thesis
    by (simp add: descending_def sort_reverse_def)
qed

lemma slice_to_from: "slice_to xs i @ slice_from xs i = xs"
  by (simp add: slice_to_def slice_from_def)

lemma descending_append:
  "descending (xs @ ys) \<Longrightarrow> a \<in> set xs \<Longrightarrow> b \<in> set ys \<Longrightarrow> created_at b \<le> created_at a"
  by (auto simp: descending_def sorted_wrt_append)

lemma descending_suffix: "descending (xs @ ys) \<Longrightarrow> descending ys"
  by (simp add: descending_def sorted_wrt_append)

lemma length_slice_from_nonneg:
  "0 \<le> i \<Longrightarrow> int (length (slice_from xs i)) = max 0 (int (length xs) - i)"
  by (simp add: slice_from_def)

lemma length_slice_to_nonneg:
  "0 \<le> i \<Longrightarrow> int (length (slice_to xs i)) = min i (int (length xs))"
  by (simp add: slice_to_def)

lemma sort_reverse_fixpoint: "sort_reverse xs = xs \<longleftrightarrow> descending xs"
proof
  assume "sort_reverse xs = xs"
  then show "descending xs"
    using descending_sort_reverse [of xs] by simp
next
  assume "descending xs"
  then have "sorted_wrt (\<lambda>a b. created_at a \<le> created_at b) (rev xs)"
    by (simp add: descending_def sorted_wrt_rev)
  then have "sorted (map created_at (rev xs))"
    by (simp add: sorted_wrt_map)
  then have "sort_key created_at (rev xs) = rev xs"
    by (rule sort_key_id_if_sorted)
  then show "sort_reverse xs = xs"
    by (simp add: sort_reverse_def)
qed

section \<open>The script's surroundings: network, clock and log\<close>

text \<open>
  The methods of \<^verbatim>\<open>SnapshotManager\<close> talk to the providers and the notification targets
  through \<^verbatim>\<open>requests\<close>, read and advance time, and write to a logger. The model threads a
  \<open>world\<close> through them.

  \<^item> An HTTP call has one of three outcomes: it raises
    \<^verbatim>\<open>requests.exceptions.RequestException\<close> (connection errors and timeouts), it raises
    some other exception, or it returns a response with a status code and a body.
  \<^item> A body is the decoded JSON object, reduced to the keys the script reads.
  \<^item> The network is a script of replies, consumed one per call, each with the seconds the
    call takes; when the script is exhausted every further call fails with a connection
    error. The runs described are therefore those in which the network answers finitely
    many calls.
  \<^item> The requests sent and the waits are recorded twice: each kind in its own list
    (\<open>sent\<close>, \<open>slept\<close>), and both together in the order they happen (\<open>events\<close>).
  \<^item> The logger keeps the WARNING and ERROR records (by the fixed part of their text) and
    the FINAL\_STATUS line; DEBUG and INFO progress lines are left out.
\<close>

record digitalocean_item =
  do_resource_id :: string
  do_name :: string
  do_id :: string
  do_created_at :: "int option"

record hetzner_item =
  hz_description :: string
  hz_id :: string
  hz_created :: "int option"

text \<open>
  \<open>do_resource_id\<close> and \<open>do_id\<close> are \<^verbatim>\<open>str(snapshot.get("resource_id"))\<close> and
  \<^verbatim>\<open>str(snapshot.get("id"))\<close>. \<open>do_created_at\<close> and \<open>hz_created\<close> are the instant that
  \<^verbatim>\<open>datetime.fromisoformat(...).astimezone(utc)\<close> computes from the item's timestamp text,
  \<open>None\<close> when it raises \<^verbatim>\<open>ValueError\<close>.

  \<open>Snapshots items next\<close> is a DigitalOcean listing page (\<^verbatim>\<open>"snapshots"\<close>, and whether
  \<^verbatim>\<open>links.pages.next\<close> is present); \<open>Images items next\<close> a Hetzner one (\<^verbatim>\<open>"images"\<close>, and
  whether \<^verbatim>\<open>meta.pagination.next_page\<close> is set); \<open>Action aid iid st\<close> carries
  \<^verbatim>\<open>action.id\<close>, \<^verbatim>\<open>image.id\<close> and \<^verbatim>\<open>action.status\<close>; \<open>Other\<close> is an object with none of
  these keys.
\<close>

datatype body =
    Snapshots "digitalocean_item list" bool
  | Images "hetzner_item list" bool
  | Action "nat option" "nat option" "string option"
  | Other

datatype outcome =
    RequestException
  | OtherException
  | Response nat body

datatype request =
    GetSnapshots nat
  | GetImages nat
  | PostDropletAction string string
  | PostCreateImage string string
  | GetDigitaloceanAction nat
  | GetHetznerAction nat
  | DeleteSnapshot string
  | DeleteImage string
  | PostTelegram string string
  | PostWebhook string

datatype level = WARNING | ERROR

datatype exn = ValueError | OverflowError | Unexpected

text \<open>What the script does to its surroundings, in order: a request sent, or a wait.\<close>

datatype event = Request request | Wait int

record final_status_line =
  fs_provider :: string
  fs_server :: string
  fs_status :: string
  fs_snapshot_name :: string
  fs_total_snapshots :: nat

record world =
  replies :: "(nat \<times> outcome) list"
  sent :: "request list"
  clock :: int
  utc_offset :: int
  slept :: "int list"
  logged :: "(level \<times> string) list"
  final_status :: "final_status_line list"
  events :: "event list"

definition http_request :: "request \<Rightarrow> world \<Rightarrow> outcome \<times> world" where
  "http_request rq w =
     (case replies w of
        [] \<Rightarrow>
          (RequestException, w\<lparr>sent := sent w @ [rq], events := events w @ [Request rq]\<rparr>)
      | (took, out) # rest \<Rightarrow>
          (out, w\<lparr>replies := rest, sent := sent w @ [rq], clock := clock w + int took,
                 events := events w @ [Request rq]\<rparr>))"

text \<open>\<^verbatim>\<open>response.raise_for_status()\<close> raises \<^verbatim>\<open>HTTPError\<close>, a \<^verbatim>\<open>RequestException\<close>, for 4xx and 5xx.\<close>

definition raise_for_status :: "nat \<Rightarrow> bool" where
  "raise_for_status code = (400 \<le> code \<and> code < 600)"

text \<open>
  \<^verbatim>\<open>time.sleep(secs)\<close> for an integer number of seconds. It raises \<^verbatim>\<open>ValueError\<close> for a
  negative argument, and \<^verbatim>\<open>OverflowError\<close> when the argument in nanoseconds does not fit a
  signed 64-bit integer (CPython 3.11), that is above 9223372036 seconds.
\<close>

definition sleep_max :: int where
  "sleep_max = 9223372036"

definition sleep :: "int \<Rightarrow> world \<Rightarrow> (exn + unit) \<times> world" where
  "sleep secs w =
     (if secs < 0 then (Inl ValueError, w)
      else if sleep_max < secs then (Inl OverflowError, w)
      else (Inr (), w\<lparr>clock := clock w + secs, slept := slept w @ [secs],
                     events := events w @ [Wait secs]\<rparr>))"


definition log_record :: "level \<Rightarrow> string \<Rightarrow> world \<Rightarrow> world" where
  "log_record lvl msg w = w\<lparr>logged := logged w @ [(lvl, msg)]\<rparr>"

text \<open>Python's truth test on an optional string: \<^verbatim>\<open>None\<close> and \<^verbatim>\<open>""\<close> are false.\<close>

definition truthy :: "string option \<Rightarrow> bool" where
  "truthy s = (case s of None \<Rightarrow> False | Some x \<Rightarrow> x \<noteq> [])"

record server_config =
  provider :: string
  server_id :: string
  server_name :: string
  api_token :: string
  retain_last_snapshots :: int
  telegram_enabled :: bool
  telegram_bot_token :: "string option"
  telegram_chat_id :: "string option"
  webhook_enabled :: bool
  webhook_url :: "string option"

text \<open>
  The module constants read from \<^verbatim>\<open>snapshots.config\<close> that the modelled methods use. The
  message and payload templates only shape the text of a notification, which the model
  does not carry.
\<close>

record settings =
  DELAY_BETWEEN_SERVERS :: int
  SNAPSHOT_CREATION_TIMEOUT :: int
  TELEGRAM_BOT_TOKEN :: "string option"
  TELEGRAM_CHAT_ID :: "string option"
  TELEGRAM_RETRIES :: int
  TELEGRAM_BASE_DELAY_BETWEEN_RETRIES :: int
  WEBHOOK_URL :: "string option"
  WEBHOOK_TIMEOUT :: int
  WEBHOOK_RETRIES :: int
  WEBHOOK_BASE_DELAY_BETWEEN_RETRIES :: int

lemma http_request_replies:
  "length (replies (snd (http_request rq w))) \<le> length (replies w)"
  by (simp add: http_request_def split: list.splits prod.splits)

lemma http_request_Response:
  "http_request rq w = (Response code b, w1) \<Longrightarrow> length (replies w1) < length (replies w)"
  by (auto simp: http_request_def split: list.splits prod.splits)

section \<open>Listing snapshots\<close>

text \<open>
  The \<^verbatim>\<open>for snapshot in snapshot_list\<close> loop of \<^verbatim>\<open>get_digitalocean_snapshots\<close>: an item is
  taken when its resource id is the droplet's id or the droplet's name occurs in its
  name; an item whose timestamp does not parse is reported and skipped.
\<close>

fun digitalocean_collect ::
  "server_config \<Rightarrow> digitalocean_item list \<Rightarrow> snapshot list \<Rightarrow> world \<Rightarrow> snapshot list \<times> world"
where
  "digitalocean_collect server [] snapshots w = (snapshots, w)"
| "digitalocean_collect server (item # items) snapshots w =
     (if do_resource_id item = server_id server \<or> sublist (server_name server) (do_name item)
      then (case do_created_at item of
              Some t \<Rightarrow>
                digitalocean_collect server items
                  (snapshots @ [\<lparr>snap_id = do_id item, snap_name = do_name item, created_at = t\<rparr>]) w
            | None \<Rightarrow>
                digitalocean_collect server items snapshots
                  (log_record ERROR ''Invalid date format for snapshot'' w))
      else digitalocean_collect server items snapshots w)"

lemma digitalocean_collect_replies:
  "replies (snd (digitalocean_collect server items snapshots w)) = replies w"
  by (induction items arbitrary: snapshots w) (auto simp: log_record_def split: option.splits)

text \<open>
  The \<^verbatim>\<open>while True\<close> loop of \<^verbatim>\<open>get_digitalocean_snapshots\<close>, one page per iteration. Both
  exception handlers log an error and leave the loop; the list built so far is what the
  method returns.
\<close>

function digitalocean_pages ::
  "server_config \<Rightarrow> nat \<Rightarrow> snapshot list \<Rightarrow> world \<Rightarrow> snapshot list \<times> world"
where
  "digitalocean_pages server page snapshots w =
     (case http_request (GetSnapshots page) w of
        (RequestException, w1) \<Rightarrow>
          (snapshots, log_record ERROR ''[DIGITALOCEAN] Failed to fetch snapshots'' w1)
      | (OtherException, w1) \<Rightarrow>
          (snapshots, log_record ERROR ''[DIGITALOCEAN] Unexpected error fetching snapshots'' w1)
      | (Response code b, w1) \<Rightarrow>
          if raise_for_status code
          then (snapshots, log_record ERROR ''[DIGITALOCEAN] Failed to fetch snapshots'' w1)
          else (case b of
                  Snapshots snapshot_list has_next \<Rightarrow>
                    if snapshot_list = [] then (snapshots, w1)
                    else (case digitalocean_collect server snapshot_list snapshots w1 of
                            (snapshots', w2) \<Rightarrow>
                              if has_next then digitalocean_pages server (page + 1) snapshots' w2
                              else (snapshots', w2))
                | _ \<Rightarrow> (snapshots, w1)))"
  by pat_completeness auto
termination
proof (relation "measure (\<lambda>(server, page, snapshots, w). length (replies w))")
  show "wf (measure (\<lambda>(server, page, snapshots, w). length (replies w)))"
    by simp
next
  fix server page snapshots w x w1 code b snapshot_list has_next y snapshots' w2
  assume req: "(x, w1) = http_request (GetSnapshots page) w" "x = Response code b"
    and col: "(snapshots', w2) = digitalocean_collect server snapshot_list snapshots w1"
  have "replies w2 = replies w1"
    using digitalocean_collect_replies [of server snapshot_list snapshots w1] col [symmetric]
    by simp
  moreover have "length (replies w1) < length (replies w)"
    using req http_request_Response [of "GetSnapshots page" w code b w1] by simp
  ultimately show "((server, page + 1, snapshots', w2), server, page, snapshots, w)
      \<in> measure (\<lambda>(server, page, snapshots, w). length (replies w))"
    by simp
qed

declare digitalocean_pages.simps [simp del]

definition get_digitalocean_snapshots :: "server_config \<Rightarrow> world \<Rightarrow> snapshot list \<times> world" where
  "get_digitalocean_snapshots server w = digitalocean_pages server 1 [] w"

text \<open>
  The same two loops of \<^verbatim>\<open>get_hetzner_snapshots\<close>. An image is taken when the server's
  name occurs in its description or the description starts with it.
\<close>

fun hetzner_collect ::
  "server_config \<Rightarrow> hetzner_item list \<Rightarrow> snapshot list \<Rightarrow> world \<Rightarrow> snapshot list \<times> world"
where
  "hetzner_collect server [] snapshots w = (snapshots, w)"
| "hetzner_collect server (img # images) snapshots w =
     (if sublist (server_name server) (hz_description img)
         \<or> prefix (server_name server) (hz_description img)
      then (case hz_created img of
              Some t \<Rightarrow>
                hetzner_collect server images
                  (snapshots @ [\<lparr>snap_id = hz_id img, snap_name = hz_description img,
                                 created_at = t\<rparr>]) w
            | None \<Rightarrow>
                hetzner_collect server images snapshots
                  (log_record ERROR ''Invalid date format for snapshot'' w))
      else hetzner_collect server images snapshots w)"

lemma hetzner_collect_replies:
  "replies (snd (hetzner_collect server images snapshots w)) = replies w"
  by (induction images arbitrary: snapshots w) (auto simp: log_record_def split: option.splits)

function hetzner_pages ::
  "server_config \<Rightarrow> nat \<Rightarrow> snapshot list \<Rightarrow> world \<Rightarrow> snapshot list \<times> world"
where
  "hetzner_pages server page snapshots w =
     (case http_request (GetImages page) w of
        (RequestException, w1) \<Rightarrow>
          (snapshots, log_record ERROR ''[HETZNER] Failed to fetch snapshots'' w1)
      | (OtherException, w1) \<Rightarrow>
          (snapshots, log_record ERROR ''[HETZNER] Unexpected error fetching snapshots'' w1)
      | (Response code b, w1) \<Rightarrow>
          if raise_for_status code
          then (snapshots, log_record ERROR ''[HETZNER] Failed to fetch snapshots'' w1)
          else (case b of
                  Images images has_next \<Rightarrow>
                    if images = [] then (snapshots, w1)
                    else (case hetzner_collect server images snapshots w1 of
                            (snapshots', w2) \<Rightarrow>
                              if has_next then hetzner_pages server (page + 1) snapshots' w2
                              else (snapshots', w2))
                | _ \<Rightarrow> (snapshots, w1)))"
  by pat_completeness auto
termination
proof (relation "measure (\<lambda>(server, page, snapshots, w). length (replies w))")
  show "wf (measure (\<lambda>(server, page, snapshots, w). length (replies w)))"
    by simp
next
  fix server page snapshots w x w1 code b images has_next y snapshots' w2
  assume req: "(x, w1) = http_request (GetImages page) w" "x = Response code b"
    and col: "(snapshots', w2) = hetzner_collect server images snapshots w1"
  have "replies w2 = replies w1"
    using hetzner_collect_replies [of server images snapshots w1] col [symmetric]
    by simp
  moreover have "length (replies w1) < length (replies w)"
    using req http_request_Response [of "GetImages page" w code b w1] by simp
  ultimately show "((server, page + 1, snapshots', w2), server, page, snapshots, w)
      \<in> measure (\<lambda>(server, page, snapshots, w). length (replies w))"
    by simp
qed

declare hetzner_pages.simps [simp del]

definition get_hetzner_snapshots :: "server_config \<Rightarrow> world \<Rightarrow> snapshot list \<times> world" where
  "get_hetzner_snapshots server w = hetzner_pages server 1 [] w"

text \<open>\<^verbatim>\<open>get_snapshots\<close>: the dispatch on the provider tag.\<close>

definition get_snapshots :: "server_config \<Rightarrow> world \<Rightarrow> snapshot list \<times> world" where
  "get_snapshots server w =
     (if provider server = ''digitalocean'' then get_digitalocean_snapshots server w
      else if provider server = ''hetzner'' then get_hetzner_snapshots server w
      else ([], log_record ERROR ''Unknown provider'' w))"

subsection \<open>What one page contributes\<close>

text \<open>
  The records a page adds to the list, as a function of the page alone: the matching
  items whose timestamp parses, in the page's order.
\<close>

definition digitalocean_selected :: "server_config \<Rightarrow> digitalocean_item list \<Rightarrow> snapshot list" where
  "digitalocean_selected server items =
     fst (digitalocean_collect server items []
           \<lparr>replies = [], sent = [], clock = 0, utc_offset = 0, slept = [], logged = [],
            final_status = [], events = []\<rparr>)"

definition hetzner_selected :: "server_config \<Rightarrow> hetzner_item list \<Rightarrow> snapshot list" where
  "hetzner_selected server images =
     fst (hetzner_collect server images []
           \<lparr>replies = [], sent = [], clock = 0, utc_offset = 0, slept = [], logged = [],
            final_status = [], events = []\<rparr>)"

lemma digitalocean_collect_fst:
  "fst (digitalocean_collect server items acc w)
     = acc @ fst (digitalocean_collect server items [] w')"
proof (induction items arbitrary: acc w w')
  case Nil
  show ?case by simp
next
  case (Cons item items)
  show ?case
  proof (cases "do_resource_id item = server_id server
                \<or> sublist (server_name server) (do_name item)")
    case False
    then show ?thesis using Cons.IH [of acc w w'] by simp
  next
    case True
    show ?thesis
    proof (cases "do_created_at item")
      case None
      then show ?thesis using True Cons.IH [of acc] by simp
    next
      case (Some t)
      let ?s = "\<lparr>snap_id = do_id item, snap_name = do_name item, created_at = t\<rparr>"
      have "fst (digitalocean_collect server items (acc @ [?s]) w)
              = (acc @ [?s]) @ fst (digitalocean_collect server items [] w')"
        by (rule Cons.IH)
      moreover have "fst (digitalocean_collect server items [?s] w')
              = [?s] @ fst (digitalocean_collect server items [] w')"
        by (rule Cons.IH)
      ultimately show ?thesis using True Some by simp
    qed
  qed
qed

lemma digitalocean_collect_selected:
  "fst (digitalocean_collect server items acc w) = acc @ digitalocean_selected server items"
  unfolding digitalocean_selected_def by (rule digitalocean_collect_fst)

lemma hetzner_collect_fst:
  "fst (hetzner_collect server images acc w)
     = acc @ fst (hetzner_collect server images [] w')"
proof (induction images arbitrary: acc w w')
  case Nil
  show ?case by simp
next
  case (Cons img images)
  show ?case
  proof (cases "sublist (server_name server) (hz_description img)
                \<or> prefix (server_name server) (hz_description img)")
    case False
    then show ?thesis using Cons.IH [of acc w w'] by simp
  next
    case True
    show ?thesis
    proof (cases "hz_created img")
      case None
      then show ?thesis using True Cons.IH [of acc] by simp
    next
      case (Some t)
      let ?s = "\<lparr>snap_id = hz_id img, snap_name = hz_description img, created_at = t\<rparr>"
      have "fst (hetzner_collect server images (acc @ [?s]) w)
              = (acc @ [?s]) @ fst (hetzner_collect server images [] w')"
        by (rule Cons.IH)
      moreover have "fst (hetzner_collect server images [?s] w')
              = [?s] @ fst (hetzner_collect server images [] w')"
        by (rule Cons.IH)
      ultimately show ?thesis using True Some by simp
    qed
  qed
qed

lemma hetzner_collect_selected:
  "fst (hetzner_collect server images acc w) = acc @ hetzner_selected server images"
  unfolding hetzner_selected_def by (rule hetzner_collect_fst)

subsection \<open>A listing that fails part-way\<close>

text \<open>
  The outcomes that send a listing call into one of its exception handlers: a raised
  exception, or a status that \<^verbatim>\<open>raise_for_status\<close> turns into one.
\<close>

definition request_fails :: "outcome \<Rightarrow> bool" where
  "request_fails out =
     (case out of
        RequestException \<Rightarrow> True
      | OtherException \<Rightarrow> True
      | Response code b \<Rightarrow> raise_for_status code)"

text \<open>A reply that is a non-empty listing page announcing a further page, and its items.\<close>

definition digitalocean_full_page :: "nat \<times> outcome \<Rightarrow> bool" where
  "digitalocean_full_page r =
     (case snd r of
        Response code (Snapshots items has_next) \<Rightarrow>
          \<not> raise_for_status code \<and> items \<noteq> [] \<and> has_next
      | _ \<Rightarrow> False)"

definition hetzner_full_page :: "nat \<times> outcome \<Rightarrow> bool" where
  "hetzner_full_page r =
     (case snd r of
        Response code (Images images has_next) \<Rightarrow>
          \<not> raise_for_status code \<and> images \<noteq> [] \<and> has_next
      | _ \<Rightarrow> False)"

definition snapshots_of :: "nat \<times> outcome \<Rightarrow> digitalocean_item list" where
  "snapshots_of r = (case snd r of Response code (Snapshots items has_next) \<Rightarrow> items | _ \<Rightarrow> [])"

definition images_of :: "nat \<times> outcome \<Rightarrow> hetzner_item list" where
  "images_of r = (case snd r of Response code (Images images has_next) \<Rightarrow> images | _ \<Rightarrow> [])"

definition ends_with_error :: "string set \<Rightarrow> world \<Rightarrow> world \<Rightarrow> bool" where
  "ends_with_error msgs w w' =
     (\<exists>ls m. logged w' = logged w @ ls @ [(ERROR, m)] \<and> m \<in> msgs)"

lemma digitalocean_collect_logged:
  "\<exists>ls. logged (snd (digitalocean_collect server items acc w)) = logged w @ ls"
proof (induction items arbitrary: acc w)
  case Nil
  show ?case by simp
next
  case (Cons item items)
  show ?case
  proof (cases "(do_resource_id item = server_id server
                \<or> sublist (server_name server) (do_name item)) \<and> do_created_at item = None")
    case True
    obtain ls where "logged (snd (digitalocean_collect server items acc
          (log_record ERROR ''Invalid date format for snapshot'' w)))
        = logged (log_record ERROR ''Invalid date format for snapshot'' w) @ ls"
      using Cons.IH by blast
    then show ?thesis using True by (simp add: log_record_def)
  next
    case False
    then show ?thesis using Cons.IH by (auto split: option.splits)
  qed
qed

lemma hetzner_collect_logged:
  "\<exists>ls. logged (snd (hetzner_collect server images acc w)) = logged w @ ls"
proof (induction images arbitrary: acc w)
  case Nil
  show ?case by simp
next
  case (Cons img images)
  show ?case
  proof (cases "(sublist (server_name server) (hz_description img)
                \<or> prefix (server_name server) (hz_description img)) \<and> hz_created img = None")
    case True
    obtain ls where "logged (snd (hetzner_collect server images acc
          (log_record ERROR ''Invalid date format for snapshot'' w)))
        = logged (log_record ERROR ''Invalid date format for snapshot'' w) @ ls"
      using Cons.IH by blast
    then show ?thesis using True by (simp add: log_record_def)
  next
    case False
    then show ?thesis using Cons.IH by (auto split: option.splits)
  qed
qed

lemma ends_with_error_trans:
  "logged w1 = logged w @ ls \<Longrightarrow> ends_with_error msgs w1 w' \<Longrightarrow> ends_with_error msgs w w'"
  by (auto simp: ends_with_error_def)

lemma digitalocean_pages_failure:
  assumes "replies w = good @ (took, out) # rest"
    and "\<forall>r \<in> set good. digitalocean_full_page r"
    and "request_fails out"
  shows "fst (digitalocean_pages server page acc w)
           = acc @ concat (map (\<lambda>r. digitalocean_selected server (snapshots_of r)) good)
       \<and> ends_with_error {''[DIGITALOCEAN] Failed to fetch snapshots'',
                          ''[DIGITALOCEAN] Unexpected error fetching snapshots''}
           w (snd (digitalocean_pages server page acc w))"
  using assms
proof (induction good arbitrary: w page acc)
  case Nil
  then have "replies w = (took, out) # rest" by simp
  with Nil.prems(3) show ?case
    by (subst (1 2) digitalocean_pages.simps)
       (auto simp: http_request_def request_fails_def log_record_def ends_with_error_def
             split: outcome.splits)
next
  case (Cons r good)
  from Cons.prems(2) have full: "digitalocean_full_page r" by simp
  then obtain d code items where r: "r = (d, Response code (Snapshots items True))"
    and ok: "\<not> raise_for_status code" "items \<noteq> []"
    by (cases r) (auto simp: digitalocean_full_page_def split: outcome.splits body.splits)
  define w1 where "w1 = snd (http_request (GetSnapshots page) w)"
  have req: "http_request (GetSnapshots page) w = (Response code (Snapshots items True), w1)"
    using Cons.prems(1) r by (simp add: w1_def http_request_def)
  have rep1: "replies w1 = good @ (took, out) # rest"
    using Cons.prems(1) r by (simp add: w1_def http_request_def)
  have log1: "logged w1 = logged w"
    using Cons.prems(1) r by (simp add: w1_def http_request_def)
  define acc' where "acc' = fst (digitalocean_collect server items acc w1)"
  define w2 where "w2 = snd (digitalocean_collect server items acc w1)"
  have col: "digitalocean_collect server items acc w1 = (acc', w2)"
    by (simp add: acc'_def w2_def)
  have acc': "acc' = acc @ digitalocean_selected server items"
    unfolding acc'_def by (rule digitalocean_collect_selected)
  have rep2: "replies w2 = good @ (took, out) # rest"
    unfolding w2_def using rep1 by (simp add: digitalocean_collect_replies)
  obtain ls where log2: "logged w2 = logged w @ ls"
    unfolding w2_def using digitalocean_collect_logged [of server items acc w1] log1 by auto
  have step: "digitalocean_pages server page acc w = digitalocean_pages server (page + 1) acc' w2"
    by (subst digitalocean_pages.simps) (simp add: req ok col)
  have IH: "fst (digitalocean_pages server (page + 1) acc' w2)
           = acc' @ concat (map (\<lambda>r. digitalocean_selected server (snapshots_of r)) good)
       \<and> ends_with_error {''[DIGITALOCEAN] Failed to fetch snapshots'',
                          ''[DIGITALOCEAN] Unexpected error fetching snapshots''}
           w2 (snd (digitalocean_pages server (page + 1) acc' w2))"
    using Cons.IH [OF rep2] Cons.prems(2,3) by simp
  have "snapshots_of r = items" by (simp add: r snapshots_of_def)
  then show ?case
    using IH ends_with_error_trans [OF log2] by (simp add: step acc')
qed

lemma hetzner_pages_failure:
  assumes "replies w = good @ (took, out) # rest"
    and "\<forall>r \<in> set good. hetzner_full_page r"
    and "request_fails out"
  shows "fst (hetzner_pages server page acc w)
           = acc @ concat (map (\<lambda>r. hetzner_selected server (images_of r)) good)
       \<and> ends_with_error {''[HETZNER] Failed to fetch snapshots'',
                          ''[HETZNER] Unexpected error fetching snapshots''}
           w (snd (hetzner_pages server page acc w))"
  using assms
proof (induction good arbitrary: w page acc)
  case Nil
  then have "replies w = (took, out) # rest" by simp
  with Nil.prems(3) show ?case
    by (subst (1 2) hetzner_pages.simps)
       (auto simp: http_request_def request_fails_def log_record_def ends_with_error_def
             split: outcome.splits)
next
  case (Cons r good)
  from Cons.prems(2) have full: "hetzner_full_page r" by simp
  then obtain d code images where r: "r = (d, Response code (Images images True))"
    and ok: "\<not> raise_for_status code" "images \<noteq> []"
    by (cases r) (auto simp: hetzner_full_page_def split: outcome.splits body.splits)
  define w1 where "w1 = snd (http_request (GetImages page) w)"
  have req: "http_request (GetImages page) w = (Response code (Images images True), w1)"
    using Cons.prems(1) r by (simp add: w1_def http_request_def)
  have rep1: "replies w1 = good @ (took, out) # rest"
    using Cons.prems(1) r by (simp add: w1_def http_request_def)
  have log1: "logged w1 = logged w"
    using Cons.prems(1) r by (simp add: w1_def http_request_def)
  define acc' where "acc' = fst (hetzner_collect server images acc w1)"
  define w2 where "w2 = snd (hetzner_collect server images acc w1)"
  have col: "hetzner_collect server images acc w1 = (acc', w2)"
    by (simp add: acc'_def w2_def)
  have acc': "acc' = acc @ hetzner_selected server images"
    unfolding acc'_def by (rule hetzner_collect_selected)
  have rep2: "replies w2 = good @ (took, out) # rest"
    unfolding w2_def using rep1 by (simp add: hetzner_collect_replies)
  obtain ls where log2: "logged w2 = logged w @ ls"
    unfolding w2_def using hetzner_collect_logged [of server images acc w1] log1 by auto
  have step: "hetzner_pages server page acc w = hetzner_pages server (page + 1) acc' w2"
    by (subst hetzner_pages.simps) (simp add: req ok col)
  have IH: "fst (hetzner_pages server (page + 1) acc' w2)
           = acc' @ concat (map (\<lambda>r. hetzner_selected server (images_of r)) good)
       \<and> ends_with_error {''[HETZNER] Failed to fetch snapshots'',
                          ''[HETZNER] Unexpected error fetching snapshots''}
           w2 (snd (hetzner_pages server (page + 1) acc' w2))"
    using Cons.IH [OF rep2] Cons.prems(2,3) by simp
  have "images_of r = images" by (simp add: r images_of_def)
  then show ?case
    using IH ends_with_error_trans [OF log2] by (simp add: step acc')
qed

section \<open>Creating a snapshot\<close>

subsection \<open>The timestamp in the snapshot's name\<close>

text \<open>
  \<^verbatim>\<open>datetime.datetime.now()\<close> is called without a timezone: it returns the local wall-clock
  time, that is the UTC clock shifted by the host's UTC offset. The model keeps it as
  seconds since 1970-01-01T00:00:00 on that wall clock.
\<close>

definition datetime_now :: "world \<Rightarrow> int" where
  "datetime_now w = clock w + utc_offset w"

text \<open>
  The proleptic Gregorian date of a day number (days since 1970-01-01), by the usual
  era/day-of-era computation; the integer division rounds down, as \<open>div\<close> does.
\<close>

definition civil_from_days :: "int \<Rightarrow> int \<times> int \<times> int" where
  "civil_from_days days =
     (let z = days + 719468;
          era = z div 146097;
          doe = z - era * 146097;
          yoe = (doe - doe div 1460 + doe div 36524 - doe div 146096) div 365;
          doy = doe - (365 * yoe + yoe div 4 - yoe div 100);
          mp = (5 * doy + 2) div 153;
          d = doy - (153 * mp + 2) div 5 + 1;
          m = (if mp < 10 then mp + 3 else mp - 9);
          y = yoe + era * 400
      in (if m \<le> 2 then y + 1 else y, m, d))"

definition digit :: "int \<Rightarrow> char" where
  "digit n = ''0123456789'' ! nat (n mod 10)"

definition two_digits :: "int \<Rightarrow> string" where
  "two_digits n = [digit (n div 10), digit n]"

definition four_digits :: "int \<Rightarrow> string" where
  "four_digits n = [digit (n div 1000), digit (n div 100), digit (n div 10), digit n]"

text \<open>\<^verbatim>\<open>strftime("%Y%m%d%H%M%S")\<close>, for years of four digits.\<close>

definition strftime :: "int \<Rightarrow> string" where
  "strftime t =
     (case civil_from_days (t div 86400) of
        (y, m, d) \<Rightarrow>
          four_digits y @ two_digits m @ two_digits d
          @ two_digits (t mod 86400 div 3600)
          @ two_digits (t mod 3600 div 60)
          @ two_digits (t mod 60))"

subsection \<open>Waiting for the provider's action\<close>

text \<open>
  One pass of the polling loop of \<^verbatim>\<open>_wait_for_digitalocean_action\<close> and
  \<^verbatim>\<open>_wait_for_hetzner_action\<close> either returns a status, or sleeps five seconds and goes
  round again, or lets an exception through (the loop catches \<^verbatim>\<open>RequestException\<close> only).
  \<open>digitalocean_poll\<close> and \<open>hetzner_poll\<close> are the bodies of the two \<^verbatim>\<open>try\<close> blocks;
  \<^verbatim>\<open>action.get("status", "unknown")\<close> is \<^verbatim>\<open>"unknown"\<close> when the key is missing.
\<close>

datatype poll = Finished string | Pending | Raised exn

definition action_status :: "body \<Rightarrow> string" where
  "action_status b = (case b of Action aid iid (Some s) \<Rightarrow> s | _ \<Rightarrow> ''unknown'')"

definition digitalocean_poll :: "outcome \<Rightarrow> poll" where
  "digitalocean_poll out =
     (case out of
        RequestException \<Rightarrow> Pending
      | OtherException \<Rightarrow> Raised Unexpected
      | Response code b \<Rightarrow>
          if raise_for_status code then Pending
          else if action_status b = ''completed'' then Finished ''completed''
          else if action_status b = ''errored'' then Finished ''errored''
          else if action_status b = ''in-progress'' then Pending
          else Pending)"

definition hetzner_poll :: "outcome \<Rightarrow> poll" where
  "hetzner_poll out =
     (case out of
        RequestException \<Rightarrow> Pending
      | OtherException \<Rightarrow> Raised Unexpected
      | Response code b \<Rightarrow>
          if raise_for_status code then Pending
          else if action_status b = ''success'' then Finished ''success''
          else if action_status b = ''error'' then Finished ''error''
          else if action_status b = ''running'' then Pending
          else Pending)"

lemma sleep_clock:
  "sleep secs w = (Inr u, w') \<Longrightarrow> clock w' = clock w + secs"
  by (auto simp: sleep_def split: if_splits)

lemma http_request_clock:
  "http_request rq w = (out, w') \<Longrightarrow> clock w \<le> clock w'"
  by (auto simp: http_request_def split: list.splits)

text \<open>
  The loop \<^verbatim>\<open>while time.time() - start_time < timeout\<close>. It ends because every pass that
  goes round again has slept five seconds.
\<close>

function poll_action ::
  "(outcome \<Rightarrow> poll) \<Rightarrow> request \<Rightarrow> int \<Rightarrow> int \<Rightarrow> world \<Rightarrow> (exn + string) \<times> world"
where
  "poll_action classify rq timeout start_time w =
     (if clock w - start_time < timeout
      then (case http_request rq w of
              (out, w1) \<Rightarrow>
                (case classify out of
                   Finished status \<Rightarrow> (Inr status, w1)
                 | Raised e \<Rightarrow> (Inl e, w1)
                 | Pending \<Rightarrow>
                     (case sleep 5 w1 of
                        (Inl e, w2) \<Rightarrow> (Inl e, w2)
                      | (Inr u, w2) \<Rightarrow> poll_action classify rq timeout start_time w2)))
      else (Inr ''timeout'', w))"
  by pat_completeness auto
termination
proof (relation "measure (\<lambda>(classify, rq, timeout, start_time, w).
                    nat (start_time + timeout - clock w))")
  show "wf (measure (\<lambda>(classify, rq, timeout, start_time, w).
              nat (start_time + timeout - clock w)))"
    by simp
next
  fix classify :: "outcome \<Rightarrow> poll" and rq timeout start_time w x out w1 y u w2
  assume run: "clock w - start_time < timeout"
    and req: "(out, w1) = http_request rq w"
    and sl: "(y, w2) = sleep 5 w1" "y = Inr u"
  have "clock w \<le> clock w1"
    using req http_request_clock [of rq w out w1] by simp
  moreover have "clock w2 = clock w1 + 5"
    using sl sleep_clock [of 5 w1 u w2] by simp
  ultimately show "((classify, rq, timeout, start_time, w2), classify, rq, timeout, start_time, w)
      \<in> measure (\<lambda>(classify, rq, timeout, start_time, w). nat (start_time + timeout - clock w))"
    using run by simp
qed

declare poll_action.simps [simp del]

definition wait_for_digitalocean_action :: "nat \<Rightarrow> int \<Rightarrow> world \<Rightarrow> (exn + string) \<times> world" where
  "wait_for_digitalocean_action action_id timeout w =
     poll_action digitalocean_poll (GetDigitaloceanAction action_id) timeout (clock w) w"

definition wait_for_hetzner_action :: "nat \<Rightarrow> int \<Rightarrow> world \<Rightarrow> (exn + string) \<times> world" where
  "wait_for_hetzner_action action_id timeout w =
     poll_action hetzner_poll (GetHetznerAction action_id) timeout (clock w) w"

subsection \<open>The create methods\<close>

text \<open>
  \<^verbatim>\<open>data.get("action", {}).get("id")\<close> and \<^verbatim>\<open>data.get("image", {}).get("id")\<close>, and Python's
  truth test on them: a missing id and the id 0 are false.
\<close>

definition action_id_of :: "body \<Rightarrow> nat option" where
  "action_id_of b = (case b of Action aid iid st \<Rightarrow> aid | _ \<Rightarrow> None)"

definition image_id_of :: "body \<Rightarrow> nat option" where
  "image_id_of b = (case b of Action aid iid st \<Rightarrow> iid | _ \<Rightarrow> None)"

definition truthy_id :: "nat option \<Rightarrow> bool" where
  "truthy_id i = (case i of None \<Rightarrow> False | Some n \<Rightarrow> n \<noteq> 0)"

definition id_value :: "nat option \<Rightarrow> nat" where
  "id_value i = (case i of None \<Rightarrow> 0 | Some n \<Rightarrow> n)"

definition create_digitalocean_snapshot ::
  "settings \<Rightarrow> server_config \<Rightarrow> world \<Rightarrow> string option \<times> world" where
  "create_digitalocean_snapshot cfg server w =
     (let timestamp = strftime (datetime_now w);
          snapshot_name = server_name server @ ''-'' @ timestamp
      in case http_request (PostDropletAction (server_id server) snapshot_name) w of
           (RequestException, w1) \<Rightarrow>
             (None, log_record ERROR ''Failed to create snapshot'' w1)
         | (OtherException, w1) \<Rightarrow>
             (None, log_record ERROR ''Unexpected error creating snapshot'' w1)
         | (Response code b, w1) \<Rightarrow>
             if raise_for_status code
             then (None, log_record ERROR ''Failed to create snapshot'' w1)
             else if truthy_id (action_id_of b)
             then (case wait_for_digitalocean_action (id_value (action_id_of b))
                          (SNAPSHOT_CREATION_TIMEOUT cfg) w1 of
                     (Inl e, w2) \<Rightarrow>
                       (None, log_record ERROR ''Unexpected error creating snapshot'' w2)
                   | (Inr status, w2) \<Rightarrow>
                       if status = ''completed'' then (Some snapshot_name, w2)
                       else (None, log_record ERROR ''Snapshot creation failed with status'' w2))
             else (None, log_record ERROR ''Failed to create snapshot: No action ID returned'' w1))"

definition create_hetzner_snapshot ::
  "settings \<Rightarrow> server_config \<Rightarrow> world \<Rightarrow> string option \<times> world" where
  "create_hetzner_snapshot cfg server w =
     (let timestamp = strftime (datetime_now w);
          snapshot_name = server_name server @ ''-'' @ timestamp
      in case http_request (PostCreateImage (server_id server) snapshot_name) w of
           (RequestException, w1) \<Rightarrow>
             (None, log_record ERROR ''Failed to create snapshot'' w1)
         | (OtherException, w1) \<Rightarrow>
             (None, log_record ERROR ''Unexpected error creating snapshot'' w1)
         | (Response code b, w1) \<Rightarrow>
             if raise_for_status code
             then (None, log_record ERROR ''Failed to create snapshot'' w1)
             else if truthy_id (action_id_of b) \<and> truthy_id (image_id_of b)
             then (case wait_for_hetzner_action (id_value (action_id_of b))
                          (SNAPSHOT_CREATION_TIMEOUT cfg) w1 of
                     (Inl e, w2) \<Rightarrow>
                       (None, log_record ERROR ''Unexpected error creating snapshot'' w2)
                   | (Inr status, w2) \<Rightarrow>
                       if status = ''success'' then (Some snapshot_name, w2)
                       else (None, log_record ERROR ''Snapshot creation failed with status'' w2))
             else (None, log_record ERROR
                     ''Failed to create snapshot: No action/image ID returned'' w1))"

definition create_snapshot ::
  "settings \<Rightarrow> server_config \<Rightarrow> world \<Rightarrow> string option \<times> world" where
  "create_snapshot cfg server w =
     (if provider server = ''digitalocean'' then create_digitalocean_snapshot cfg server w
      else if provider server = ''hetzner'' then create_hetzner_snapshot cfg server w
      else (None, log_record ERROR ''Unknown provider'' w))"

section \<open>Deleting snapshots\<close>

text \<open>
  The body of the \<^verbatim>\<open>for idx, snap in enumerate(snapshots, 1)\<close> loop after the request: what
  the \<^verbatim>\<open>if\<close>/\<^verbatim>\<open>elif\<close>/\<^verbatim>\<open>else\<close> on the status code and the two exception handlers log. A
  204 logs at INFO level only.
\<close>

definition delete_log :: "outcome \<Rightarrow> (level \<times> string) list" where
  "delete_log out =
     (case out of
        RequestException \<Rightarrow> [(ERROR, ''Failed to delete snapshot'')]
      | OtherException \<Rightarrow> [(ERROR, ''Unexpected error deleting snapshot'')]
      | Response code b \<Rightarrow>
          if code = 204 then []
          else if code = 404 then [(WARNING, ''Snapshot not found (likely already deleted)'')]
          else [(ERROR, ''Failed to delete snapshot (status)'')])"

fun delete_each :: "(string \<Rightarrow> request) \<Rightarrow> snapshot list \<Rightarrow> world \<Rightarrow> world" where
  "delete_each url [] w = w"
| "delete_each url (snap # snaps) w =
     (case http_request (url (snap_id snap)) w of
        (out, w1) \<Rightarrow> delete_each url snaps (w1\<lparr>logged := logged w1 @ delete_log out\<rparr>))"

definition delete_digitalocean_snapshots :: "server_config \<Rightarrow> snapshot list \<Rightarrow> world \<Rightarrow> world" where
  "delete_digitalocean_snapshots server snapshots w =
     (if snapshots = [] then w else delete_each DeleteSnapshot snapshots w)"

definition delete_hetzner_snapshots :: "server_config \<Rightarrow> snapshot list \<Rightarrow> world \<Rightarrow> world" where
  "delete_hetzner_snapshots server snapshots w =
     (if snapshots = [] then w else delete_each DeleteImage snapshots w)"

definition delete_snapshots :: "server_config \<Rightarrow> snapshot list \<Rightarrow> world \<Rightarrow> world" where
  "delete_snapshots server snapshots w =
     (if provider server = ''digitalocean'' then delete_digitalocean_snapshots server snapshots w
      else if provider server = ''hetzner'' then delete_hetzner_snapshots server snapshots w
      else log_record ERROR ''Unknown provider'' w)"

section \<open>Notifications\<close>

text \<open>
  The retry loop \<^verbatim>\<open>for attempt in range(1, max_retries + 1)\<close> that
  \<^verbatim>\<open>send_telegram_notification\<close> and \<^verbatim>\<open>send_webhook_notification\<close> share, over the attempt
  numbers still to come. \<open>ok\<close> is the test on the status code (\<^verbatim>\<open>== 200\<close> for Telegram,
  \<^verbatim>\<open>200 <= code < 300\<close> for a webhook) and \<open>channel\<close> the word in the warnings. The loop
  catches \<^verbatim>\<open>RequestException\<close> (of which \<^verbatim>\<open>Timeout\<close> is a case); any other exception leaves
  the function, and so does the \<^verbatim>\<open>ValueError\<close> or \<^verbatim>\<open>OverflowError\<close> of a \<^verbatim>\<open>time.sleep\<close>
  that rejects its argument.
\<close>

definition delivered :: "(nat \<Rightarrow> bool) \<Rightarrow> outcome \<Rightarrow> bool" where
  "delivered ok out = (case out of Response code b \<Rightarrow> ok code | _ \<Rightarrow> False)"

fun attempts ::
  "request \<Rightarrow> (nat \<Rightarrow> bool) \<Rightarrow> string \<Rightarrow> int \<Rightarrow> int \<Rightarrow> int list \<Rightarrow> world
     \<Rightarrow> (exn + bool) \<times> world"
where
  "attempts rq ok channel max_retries base_delay_seconds [] w =
     (Inr False, log_record WARNING (''Failed to send '' @ channel @ '' notification'') w)"
| "attempts rq ok channel max_retries base_delay_seconds (attempt # rest) w =
     (case http_request rq w of
        (out, w1) \<Rightarrow>
          if out = OtherException then (Inl Unexpected, w1)
          else if delivered ok out then (Inr True, w1)
          else (let w2 = log_record WARNING
                           (case out of
                              Response code b \<Rightarrow> channel @ '' API error''
                            | _ \<Rightarrow> channel @ '' notification failed'') w1
                in if attempt < max_retries
                   then (case sleep (base_delay_seconds * 2 ^ nat (attempt - 1)) w2 of
                           (Inl e, w3) \<Rightarrow> (Inl e, w3)
                         | (Inr u, w3) \<Rightarrow>
                             attempts rq ok channel max_retries base_delay_seconds rest w3)
                   else attempts rq ok channel max_retries base_delay_seconds rest w2))"

definition text_of :: "string option \<Rightarrow> string" where
  "text_of s = (case s of None \<Rightarrow> [] | Some x \<Rightarrow> x)"

text \<open>
  \<^verbatim>\<open>x if x is not None else y\<close> for an optional integer, and \<^verbatim>\<open>x if x else y\<close> for an
  optional string.
\<close>

definition or_default :: "int option \<Rightarrow> int \<Rightarrow> int" where
  "or_default x y = (case x of Some v \<Rightarrow> v | None \<Rightarrow> y)"

definition or_global :: "string option \<Rightarrow> string option \<Rightarrow> string option" where
  "or_global x y = (if truthy x then x else y)"

text \<open>
  \<^verbatim>\<open>send_telegram_notification(data, logger, bot_token, chat_id, custom_message, retries,
  base_delay)\<close>. The message text is not part of the model, so \<^verbatim>\<open>data\<close> and
  \<^verbatim>\<open>custom_message\<close> are left out.
\<close>

definition send_telegram_notification ::
  "settings \<Rightarrow> string option \<Rightarrow> string option \<Rightarrow> int option \<Rightarrow> int option \<Rightarrow> world
     \<Rightarrow> (exn + bool) \<times> world" where
  "send_telegram_notification cfg bot_token chat_id retries base_delay w =
     (let token = or_global bot_token (TELEGRAM_BOT_TOKEN cfg);
          chat = or_global chat_id (TELEGRAM_CHAT_ID cfg)
      in if \<not> truthy token \<or> \<not> truthy chat then (Inr False, w)
         else (let max_retries = or_default retries (TELEGRAM_RETRIES cfg);
                   base_delay_seconds =
                     or_default base_delay (TELEGRAM_BASE_DELAY_BETWEEN_RETRIES cfg)
               in attempts (PostTelegram (text_of token) (text_of chat)) (\<lambda>code. code = 200)
                    ''Telegram'' max_retries base_delay_seconds [1..max_retries] w))"

text \<open>\<^verbatim>\<open>send_webhook_notification(logger, webhook_url, payload, timeout, retries, base_delay)\<close>.\<close>

definition send_webhook_notification ::
  "settings \<Rightarrow> string option \<Rightarrow> int option \<Rightarrow> int option \<Rightarrow> int option \<Rightarrow> world
     \<Rightarrow> (exn + bool) \<times> world" where
  "send_webhook_notification cfg url timeout retries base_delay w =
     (if \<not> truthy url then (Inr False, w)
      else (let max_retries = or_default retries (WEBHOOK_RETRIES cfg);
                base_delay_seconds =
                  or_default base_delay (WEBHOOK_BASE_DELAY_BETWEEN_RETRIES cfg)
            in attempts (PostWebhook (text_of url)) (\<lambda>code. 200 \<le> code \<and> code < 300)
                 ''Webhook'' max_retries base_delay_seconds [1..max_retries] w))"

section \<open>The workflow for one server\<close>

text \<open>
  \<^verbatim>\<open>write_final_status(server, snapshot_name, total_snapshots, status)\<close> logs the
  FINAL\_STATUS line, kept here as the arguments of the call, and then sends the
  Telegram notification and the webhook notification that are enabled for the server.
  An exception leaving a sender leaves this method too.
\<close>

definition write_final_status ::
  "settings \<Rightarrow> server_config \<Rightarrow> string \<Rightarrow> nat \<Rightarrow> string \<Rightarrow> world \<Rightarrow> (exn + unit) \<times> world" where
  "write_final_status cfg server snapshot_name total_snapshots status w =
     (let w1 = w\<lparr>final_status := final_status w @
                  [\<lparr>fs_provider = provider server, fs_server = server_name server,
                    fs_status = status, fs_snapshot_name = snapshot_name,
                    fs_total_snapshots = total_snapshots\<rparr>]\<rparr>;
          telegram =
            (if telegram_enabled server
             then if truthy (telegram_bot_token server) \<and> truthy (telegram_chat_id server)
                  then send_telegram_notification cfg (telegram_bot_token server)
                         (telegram_chat_id server) None None w1
                  else if truthy (TELEGRAM_BOT_TOKEN cfg) \<and> truthy (TELEGRAM_CHAT_ID cfg)
                  then send_telegram_notification cfg None None None None w1
                  else (Inr False, w1)
             else (Inr False, w1))
      in case telegram of
           (Inl e, w2) \<Rightarrow> (Inl e, w2)
         | (Inr sent_telegram, w2) \<Rightarrow>
             (let webhook_url_to_use =
                    (if webhook_enabled server
                     then if truthy (webhook_url server) then webhook_url server
                          else if truthy (WEBHOOK_URL cfg) then WEBHOOK_URL cfg else None
                     else None)
              in if truthy webhook_url_to_use
                 then (case send_webhook_notification cfg webhook_url_to_use
                              (Some (WEBHOOK_TIMEOUT cfg)) (Some (WEBHOOK_RETRIES cfg))
                              (Some (WEBHOOK_BASE_DELAY_BETWEEN_RETRIES cfg)) w2 of
                         (Inl e, w3) \<Rightarrow> (Inl e, w3)
                       | (Inr sent_webhook, w3) \<Rightarrow> (Inr (), w3))
                 else (Inr (), w2)))"

text \<open>
  \<^verbatim>\<open>manage_snapshots_for_server(server)\<close>: the five steps, in the source's order. The test
  \<^verbatim>\<open>if snapshot_name\<close> is Python's truth test on the optional name.
\<close>

definition manage_snapshots_for_server ::
  "settings \<Rightarrow> server_config \<Rightarrow> world \<Rightarrow> (exn + unit) \<times> world" where
  "manage_snapshots_for_server cfg server w =
     (case get_snapshots server w of
        (snapshots, w1) \<Rightarrow>
          (case identify_snapshots_to_delete snapshots (retain_last_snapshots server) of
             (to_delete, snapshots_sorted) \<Rightarrow>
               (case create_snapshot cfg server w1 of
                  (snapshot_name, w2) \<Rightarrow>
                    (let w3 = (if to_delete \<noteq> [] then delete_snapshots server to_delete w2 else w2)
                     in case get_snapshots server w3 of
                          (updated_snapshots, w4) \<Rightarrow>
                            (let total_snapshots = length updated_snapshots;
                                 status = (if truthy snapshot_name then ''success'' else ''failure'')
                             in write_final_status cfg server
                                  (if truthy snapshot_name then text_of snapshot_name else ''none'')
                                  total_snapshots status w4)))))"

section \<open>The run over all servers\<close>

text \<open>
  The loop \<^verbatim>\<open>for idx, server in enumerate(self.servers)\<close> of \<^verbatim>\<open>run\<close>, over the servers still
  to come; \<open>n\<close> is \<^verbatim>\<open>len(self.servers)\<close>. The counters are \<^verbatim>\<open>success_count\<close> and
  \<^verbatim>\<open>failure_count\<close>. The \<^verbatim>\<open>try\<close> block holds the workflow, the increment of
  \<^verbatim>\<open>success_count\<close> and the wait before the next server; its handler catches
  \<^verbatim>\<open>Exception\<close>, increments \<^verbatim>\<open>failure_count\<close> and logs an error.
\<close>

fun run_loop ::
  "settings \<Rightarrow> nat \<Rightarrow> nat \<Rightarrow> server_config list \<Rightarrow> nat \<times> nat \<Rightarrow> world \<Rightarrow> (nat \<times> nat) \<times> world"
where
  "run_loop cfg n idx [] counts w = (counts, w)"
| "run_loop cfg n idx (server # servers) (success_count, failure_count) w =
     (case manage_snapshots_for_server cfg server w of
        (Inl e, w1) \<Rightarrow>
          run_loop cfg n (idx + 1) servers (success_count, failure_count + 1)
            (log_record ERROR ''An unexpected error occurred'' w1)
      | (Inr u, w1) \<Rightarrow>
          if int idx < int n - 1
          then (case sleep (DELAY_BETWEEN_SERVERS cfg) w1 of
                  (Inl e, w2) \<Rightarrow>
                    run_loop cfg n (idx + 1) servers (success_count + 1, failure_count + 1)
                      (log_record ERROR ''An unexpected error occurred'' w2)
                | (Inr u', w2) \<Rightarrow>
                    run_loop cfg n (idx + 1) servers (success_count + 1, failure_count) w2)
          else run_loop cfg n (idx + 1) servers (success_count + 1, failure_count) w1)"

text \<open>
  \<^verbatim>\<open>run()\<close>: the status passed to \<^verbatim>\<open>sys.exit\<close>, or \<open>None\<close> when the method returns.
\<close>

definition run :: "settings \<Rightarrow> server_config list \<Rightarrow> world \<Rightarrow> nat option \<times> world" where
  "run cfg servers w =
     (case run_loop cfg (length servers) 0 servers (0, 0) w of
        ((success_count, failure_count), w1) \<Rightarrow>
          if failure_count > 0
          then if success_count = 0
               then (Some 1, log_record ERROR ''All servers failed'' w1)
               else (Some 2, log_record WARNING ''Partial failure'' w1)
          else (None, w1))"

text \<open>
  The exit status of the process once the lock is held and the configurations are loaded
  into \<^verbatim>\<open>self.servers\<close>: \<^verbatim>\<open>SnapshotManager.__init__\<close> calls \<^verbatim>\<open>sys.exit(0)\<close> when the list
  is empty; otherwise \<^verbatim>\<open>main\<close> calls \<^verbatim>\<open>run()\<close>, and when that returns \<^verbatim>\<open>main\<close> returns and
  the status is 0.
\<close>

definition exit_code :: "settings \<Rightarrow> server_config list \<Rightarrow> world \<Rightarrow> nat" where
  "exit_code cfg servers w =
     (if servers = [] then 0
      else (case fst (run cfg servers w) of Some status \<Rightarrow> status | None \<Rightarrow> 0))"

section \<open>What each step sends\<close>

text \<open>
  \<open>steps P w w'\<close>: from \<open>w\<close> to \<open>w'\<close> the script has sent some requests, all of kind \<open>P\<close>,
  and has written no FINAL\_STATUS line.
\<close>

definition steps :: "(request \<Rightarrow> bool) \<Rightarrow> world \<Rightarrow> world \<Rightarrow> bool" where
  "steps P w w' =
     (\<exists>rs. sent w' = sent w @ rs \<and> (\<forall>r \<in> set rs. P r)
           \<and> final_status w' = final_status w \<and> utc_offset w' = utc_offset w)"

definition is_listing :: "request \<Rightarrow> bool" where
  "is_listing rq = (case rq of GetSnapshots page \<Rightarrow> True | GetImages page \<Rightarrow> True | _ \<Rightarrow> False)"

definition is_creation :: "request \<Rightarrow> bool" where
  "is_creation rq =
     (case rq of
        PostDropletAction i n \<Rightarrow> True
      | PostCreateImage i n \<Rightarrow> True
      | GetDigitaloceanAction a \<Rightarrow> True
      | GetHetznerAction a \<Rightarrow> True
      | _ \<Rightarrow> False)"

definition is_deletion :: "request \<Rightarrow> bool" where
  "is_deletion rq = (case rq of DeleteSnapshot i \<Rightarrow> True | DeleteImage i \<Rightarrow> True | _ \<Rightarrow> False)"

definition is_notification :: "request \<Rightarrow> bool" where
  "is_notification rq = (case rq of PostTelegram t c \<Rightarrow> True | PostWebhook u \<Rightarrow> True | _ \<Rightarrow> False)"

lemma steps_refl: "steps P w w"
  by (simp add: steps_def)

lemma steps_trans: "steps P w w1 \<Longrightarrow> steps P w1 w2 \<Longrightarrow> steps P w w2"
  unfolding steps_def
proof -
  assume "\<exists>rs. sent w1 = sent w @ rs \<and> (\<forall>r \<in> set rs. P r)
            \<and> final_status w1 = final_status w \<and> utc_offset w1 = utc_offset w"
    and "\<exists>rs. sent w2 = sent w1 @ rs \<and> (\<forall>r \<in> set rs. P r)
            \<and> final_status w2 = final_status w1 \<and> utc_offset w2 = utc_offset w1"
  then obtain rs rs' where a: "sent w1 = sent w @ rs" "\<forall>r \<in> set rs. P r"
      "final_status w1 = final_status w" "utc_offset w1 = utc_offset w"
    and b: "sent w2 = sent w1 @ rs'" "\<forall>r \<in> set rs'. P r"
      "final_status w2 = final_status w1" "utc_offset w2 = utc_offset w1"
    by blast
  have "sent w2 = sent w @ (rs @ rs')" using a b by simp
  moreover have "\<forall>r \<in> set (rs @ rs'). P r" using a b by auto
  ultimately show "\<exists>rs. sent w2 = sent w @ rs \<and> (\<forall>r \<in> set rs. P r)
            \<and> final_status w2 = final_status w \<and> utc_offset w2 = utc_offset w"
    using a b by metis
qed

lemma steps_http: "P rq \<Longrightarrow> http_request rq w = (out, w') \<Longrightarrow> steps P w w'"
  by (auto simp: steps_def http_request_def split: list.splits)

lemma steps_log: "steps P w (log_record lvl msg w)"
  by (simp add: steps_def log_record_def)

lemma steps_logged: "steps P w (w\<lparr>logged := l\<rparr>)"
  by (simp add: steps_def)

lemma steps_sleep: "sleep secs w = (r, w') \<Longrightarrow> steps P w w'"
  by (auto simp: steps_def sleep_def split: if_splits)

lemma steps_mono: "steps P w w' \<Longrightarrow> (\<And>r. P r \<Longrightarrow> Q r) \<Longrightarrow> steps Q w w'"
  unfolding steps_def by blast

lemma steps_log_after: "steps P w w' \<Longrightarrow> steps P w (log_record lvl msg w')"
  using steps_trans [OF _ steps_log] by blast

subsection \<open>Listing\<close>

lemma digitalocean_collect_steps:
  "steps P w (snd (digitalocean_collect server items acc w))"
proof (induction items arbitrary: acc w)
  case Nil
  show ?case by (simp add: steps_refl)
next
  case (Cons item items)
  have "steps P w (snd (digitalocean_collect server items acc
          (log_record ERROR ''Invalid date format for snapshot'' w)))"
    using steps_trans [OF steps_log Cons.IH] .
  then show ?case using Cons.IH by (auto split: option.splits)
qed

lemma hetzner_collect_steps:
  "steps P w (snd (hetzner_collect server images acc w))"
proof (induction images arbitrary: acc w)
  case Nil
  show ?case by (simp add: steps_refl)
next
  case (Cons img images)
  have "steps P w (snd (hetzner_collect server images acc
          (log_record ERROR ''Invalid date format for snapshot'' w)))"
    using steps_trans [OF steps_log Cons.IH] .
  then show ?case using Cons.IH by (auto split: option.splits)
qed

lemma digitalocean_pages_steps:
  "steps is_listing w (snd (digitalocean_pages server page acc w))"
proof (induction server page acc w rule: digitalocean_pages.induct)
  case (1 server page snapshots w)
  obtain out w1 where req: "http_request (GetSnapshots page) w = (out, w1)"
    by force
  have s1: "steps is_listing w w1"
    using req by (rule steps_http [rotated]) (simp add: is_listing_def)
  show ?case
  proof (cases "\<exists>code items. out = Response code (Snapshots items True)
                  \<and> \<not> raise_for_status code \<and> items \<noteq> []")
    case True
    then obtain code items where out: "out = Response code (Snapshots items True)"
      and ok: "\<not> raise_for_status code" "items \<noteq> []"
      by blast
    obtain acc' w2 where col: "digitalocean_collect server items snapshots w1 = (acc', w2)"
      by force
    have s2: "steps is_listing w1 w2"
      using digitalocean_collect_steps [of is_listing w1 server items snapshots] col by simp
    have "steps is_listing w2 (snd (digitalocean_pages server (page + 1) acc' w2))"
      using "1.IH" [OF req [symmetric] out ok(1) refl ok(2) col [symmetric]] by simp
    then have "steps is_listing w (snd (digitalocean_pages server (page + 1) acc' w2))"
      using s1 s2 steps_trans by blast
    moreover have "digitalocean_pages server page snapshots w
        = digitalocean_pages server (page + 1) acc' w2"
      by (subst digitalocean_pages.simps) (simp add: req out ok col)
    ultimately show ?thesis by simp
  next
    case False
    have col: "\<And>items a b. digitalocean_collect server items snapshots w1 = (a, b)
                 \<Longrightarrow> steps is_listing w b"
      using steps_trans [OF s1 digitalocean_collect_steps] by (metis snd_conv)
    show ?thesis
      using False s1 col steps_log_after [OF s1]
      by (subst digitalocean_pages.simps)
         (auto simp: req split: outcome.splits body.splits prod.splits)
  qed
qed

lemma hetzner_pages_steps:
  "steps is_listing w (snd (hetzner_pages server page acc w))"
proof (induction server page acc w rule: hetzner_pages.induct)
  case (1 server page snapshots w)
  obtain out w1 where req: "http_request (GetImages page) w = (out, w1)"
    by force
  have s1: "steps is_listing w w1"
    using req by (rule steps_http [rotated]) (simp add: is_listing_def)
  show ?case
  proof (cases "\<exists>code images. out = Response code (Images images True)
                  \<and> \<not> raise_for_status code \<and> images \<noteq> []")
    case True
    then obtain code images where out: "out = Response code (Images images True)"
      and ok: "\<not> raise_for_status code" "images \<noteq> []"
      by blast
    obtain acc' w2 where col: "hetzner_collect server images snapshots w1 = (acc', w2)"
      by force
    have s2: "steps is_listing w1 w2"
      using hetzner_collect_steps [of is_listing w1 server images snapshots] col by simp
    have "steps is_listing w2 (snd (hetzner_pages server (page + 1) acc' w2))"
      using "1.IH" [OF req [symmetric] out ok(1) refl ok(2) col [symmetric]] by simp
    then have "steps is_listing w (snd (hetzner_pages server (page + 1) acc' w2))"
      using s1 s2 steps_trans by blast
    moreover have "hetzner_pages server page snapshots w
        = hetzner_pages server (page + 1) acc' w2"
      by (subst hetzner_pages.simps) (simp add: req out ok col)
    ultimately show ?thesis by simp
  next
    case False
    have col: "\<And>images a b. hetzner_collect server images snapshots w1 = (a, b)
                 \<Longrightarrow> steps is_listing w b"
      using steps_trans [OF s1 hetzner_collect_steps] by (metis snd_conv)
    show ?thesis
      using False s1 col steps_log_after [OF s1]
      by (subst hetzner_pages.simps)
         (auto simp: req split: outcome.splits body.splits prod.splits)
  qed
qed

lemma get_snapshots_steps: "steps is_listing w (snd (get_snapshots server w))"
  by (simp add: get_snapshots_def get_digitalocean_snapshots_def get_hetzner_snapshots_def
      digitalocean_pages_steps hetzner_pages_steps steps_log)

subsection \<open>Creating\<close>

lemma http_request_consumes:
  "http_request rq w = (out, w1) \<Longrightarrow>
     (replies w = [] \<and> out = RequestException \<and> replies w1 = [])
     \<or> (\<exists>took. replies w = (took, out) # replies w1)"
  by (auto simp: http_request_def split: list.splits)

lemma sleep_replies: "sleep secs w = (r, w') \<Longrightarrow> replies w' = replies w"
  by (auto simp: sleep_def split: if_splits)

lemma poll_action_steps:
  "P rq \<Longrightarrow> steps P w (snd (poll_action classify rq timeout start_time w))"
proof (induction classify rq timeout start_time w rule: poll_action.induct)
  case (1 classify rq timeout start_time w)
  show ?case
  proof (cases "clock w - start_time < timeout")
    case False
    then show ?thesis
      by (subst poll_action.simps) (simp add: steps_refl)
  next
    case True
    obtain out w1 where req: "http_request rq w = (out, w1)"
      by force
    have s1: "steps P w w1"
      using "1.prems" req by (rule steps_http)
    show ?thesis
    proof (cases "classify out")
      case (Finished status)
      then show ?thesis
        using True s1 by (subst poll_action.simps) (simp add: req)
    next
      case (Raised e)
      then show ?thesis
        using True s1 by (subst poll_action.simps) (simp add: req)
    next
      case Pending
      obtain r w2 where sl: "sleep 5 w1 = (r, w2)"
        by force
      have s2: "steps P w w2"
        using s1 steps_sleep [OF sl] steps_trans by blast
      show ?thesis
      proof (cases r)
        case (Inl e)
        then show ?thesis
          using True Pending s2 by (subst poll_action.simps) (simp add: req sl)
      next
        case (Inr u)
        have "steps P w2 (snd (poll_action classify rq timeout start_time w2))"
          using "1.IH" [OF True req [symmetric] Pending sl [symmetric] Inr "1.prems"] .
        then have "steps P w (snd (poll_action classify rq timeout start_time w2))"
          using s2 steps_trans by blast
        then show ?thesis
          using True Pending Inr by (subst poll_action.simps) (simp add: req sl)
      qed
    qed
  qed
qed

text \<open>
  A status other than \<^verbatim>\<open>"timeout"\<close> comes from a reply: the last reply the loop consumed
  is one that the loop body classifies as that final status.
\<close>

lemma poll_action_finished:
  assumes "poll_action classify rq timeout start_time w = (Inr status, w')"
    and "status \<noteq> ''timeout''"
    and "classify RequestException = Pending"
  shows "\<exists>used took out. replies w = used @ (took, out) # replies w'
           \<and> classify out = Finished status"
  using assms
proof (induction classify rq timeout start_time w rule: poll_action.induct)
  case (1 classify rq timeout start_time w)
  have running: "clock w - start_time < timeout"
  proof (rule ccontr)
    assume "\<not> clock w - start_time < timeout"
    then have "poll_action classify rq timeout start_time w = (Inr ''timeout'', w)"
      by (subst poll_action.simps) simp
    then show False using "1.prems"(1,2) by simp
  qed
  obtain out w1 where req: "http_request rq w = (out, w1)"
    by force
  show ?case
  proof (cases "classify out")
    case (Finished s)
    have "poll_action classify rq timeout start_time w = (Inr s, w1)"
      using running Finished by (subst poll_action.simps) (simp add: req)
    then have eq: "s = status" "w1 = w'"
      using "1.prems"(1) by simp_all
    have "out \<noteq> RequestException"
      using Finished "1.prems"(3) by auto
    then obtain took where "replies w = (took, out) # replies w1"
      using http_request_consumes [OF req] by auto
    then have "replies w = [] @ (took, out) # replies w'"
      using eq by simp
    then show ?thesis
      using Finished eq by blast
  next
    case (Raised e)
    have "poll_action classify rq timeout start_time w = (Inl e, w1)"
      using running Raised by (subst poll_action.simps) (simp add: req)
    then show ?thesis using "1.prems"(1) by simp
  next
    case Pending
    obtain r w2 where sl: "sleep 5 w1 = (r, w2)"
      by force
    show ?thesis
    proof (cases r)
      case (Inl e)
      have "poll_action classify rq timeout start_time w = (Inl e, w2)"
        using running Pending Inl by (subst poll_action.simps) (simp add: req sl)
      then show ?thesis using "1.prems"(1) by simp
    next
      case (Inr u)
      have "poll_action classify rq timeout start_time w
              = poll_action classify rq timeout start_time w2"
        using running Pending Inr by (subst poll_action.simps) (simp add: req sl)
      then have "poll_action classify rq timeout start_time w2 = (Inr status, w')"
        using "1.prems"(1) by simp
      then obtain used took out' where u: "replies w2 = used @ (took, out') # replies w'"
        and c: "classify out' = Finished status"
        using "1.IH" [OF running req [symmetric] Pending sl [symmetric] Inr _ "1.prems"(2,3)]
        by blast
      have r2: "replies w2 = replies w1"
        using sleep_replies [OF sl] .
      obtain pre where "replies w = pre @ replies w1"
        using http_request_consumes [OF req] by (metis append_Cons append_Nil)
      then have "replies w = (pre @ used) @ (took, out') # replies w'"
        using u r2 by simp
      then show ?thesis using c by blast
    qed
  qed
qed

lemma digitalocean_poll_completed:
  "digitalocean_poll out = Finished ''completed'' \<Longrightarrow>
     \<exists>code aid iid. out = Response code (Action aid iid (Some ''completed''))
        \<and> \<not> raise_for_status code"
  by (auto simp: digitalocean_poll_def action_status_def
      split: outcome.splits if_splits body.splits option.splits)

lemma hetzner_poll_success:
  "hetzner_poll out = Finished ''success'' \<Longrightarrow>
     \<exists>code aid iid. out = Response code (Action aid iid (Some ''success''))
        \<and> \<not> raise_for_status code"
  by (auto simp: hetzner_poll_def action_status_def
      split: outcome.splits if_splits body.splits option.splits)

lemma create_digitalocean_snapshot_Some:
  assumes "create_digitalocean_snapshot cfg server w = (Some n, w')"
  shows "n = server_name server @ ''-'' @ strftime (datetime_now w)
       \<and> (\<exists>used took code aid iid.
             replies w = used @ (took, Response code (Action aid iid (Some ''completed'')))
                          # replies w'
             \<and> \<not> raise_for_status code)"
proof -
  let ?name = "server_name server @ ''-'' @ strftime (datetime_now w)"
  obtain out w1 where req: "http_request (PostDropletAction (server_id server) ?name) w = (out, w1)"
    by force
  from assms req obtain code b where out: "out = Response code b"
    and ok: "\<not> raise_for_status code" "truthy_id (action_id_of b)"
    by (cases out) (auto simp: create_digitalocean_snapshot_def Let_def split: if_splits)
  obtain r w2 where wait: "wait_for_digitalocean_action (id_value (action_id_of b))
      (SNAPSHOT_CREATION_TIMEOUT cfg) w1 = (r, w2)"
    by force
  from assms req out ok wait have res: "r = Inr ''completed''" "w2 = w'" "n = ?name"
    by (auto simp: create_digitalocean_snapshot_def Let_def split: sum.splits if_splits)
  have "poll_action digitalocean_poll (GetDigitaloceanAction (id_value (action_id_of b)))
          (SNAPSHOT_CREATION_TIMEOUT cfg) (clock w1) w1 = (Inr ''completed'', w')"
    using wait res by (simp add: wait_for_digitalocean_action_def)
  moreover have "digitalocean_poll RequestException = Pending"
    by (simp add: digitalocean_poll_def)
  moreover have "''completed'' \<noteq> ''timeout''"
    by simp
  ultimately obtain used took out' where u: "replies w1 = used @ (took, out') # replies w'"
    and c: "digitalocean_poll out' = Finished ''completed''"
    using poll_action_finished [of digitalocean_poll _ _ _ w1 "''completed''" w']
    by blast
  obtain pre where "replies w = pre @ replies w1"
    using http_request_consumes [OF req] by (metis append_Cons append_Nil)
  then have "replies w = (pre @ used) @ (took, out') # replies w'"
    using u by simp
  then show ?thesis
    using digitalocean_poll_completed [OF c] res(3) by blast
qed

lemma create_hetzner_snapshot_Some:
  assumes "create_hetzner_snapshot cfg server w = (Some n, w')"
  shows "n = server_name server @ ''-'' @ strftime (datetime_now w)
       \<and> (\<exists>used took code aid iid.
             replies w = used @ (took, Response code (Action aid iid (Some ''success'')))
                          # replies w'
             \<and> \<not> raise_for_status code)"
proof -
  let ?name = "server_name server @ ''-'' @ strftime (datetime_now w)"
  obtain out w1 where req: "http_request (PostCreateImage (server_id server) ?name) w = (out, w1)"
    by force
  from assms req obtain code b where out: "out = Response code b"
    and ok: "\<not> raise_for_status code" "truthy_id (action_id_of b) \<and> truthy_id (image_id_of b)"
    by (cases out) (auto simp: create_hetzner_snapshot_def Let_def split: if_splits)
  obtain r w2 where wait: "wait_for_hetzner_action (id_value (action_id_of b))
      (SNAPSHOT_CREATION_TIMEOUT cfg) w1 = (r, w2)"
    by force
  from assms req out ok wait have res: "r = Inr ''success''" "w2 = w'" "n = ?name"
    by (auto simp: create_hetzner_snapshot_def Let_def split: sum.splits if_splits)
  have "poll_action hetzner_poll (GetHetznerAction (id_value (action_id_of b)))
          (SNAPSHOT_CREATION_TIMEOUT cfg) (clock w1) w1 = (Inr ''success'', w')"
    using wait res by (simp add: wait_for_hetzner_action_def)
  moreover have "hetzner_poll RequestException = Pending"
    by (simp add: hetzner_poll_def)
  moreover have "''success'' \<noteq> ''timeout''"
    by simp
  ultimately obtain used took out' where u: "replies w1 = used @ (took, out') # replies w'"
    and c: "hetzner_poll out' = Finished ''success''"
    using poll_action_finished [of hetzner_poll _ _ _ w1 "''success''" w']
    by blast
  obtain pre where "replies w = pre @ replies w1"
    using http_request_consumes [OF req] by (metis append_Cons append_Nil)
  then have "replies w = (pre @ used) @ (took, out') # replies w'"
    using u by simp
  then show ?thesis
    using hetzner_poll_success [OF c] res(3) by blast
qed

subsection \<open>Deleting\<close>

text \<open>
  The outcomes of the next \<open>n\<close> calls, read off the script: its first \<open>n\<close> replies, and a
  connection error for every call after the script has run out.
\<close>

definition answers :: "nat \<Rightarrow> (nat \<times> outcome) list \<Rightarrow> outcome list" where
  "answers n script = map snd (take n script) @ replicate (n - length script) RequestException"

lemma answers_Suc_Nil: "answers (Suc n) [] = RequestException # answers n []"
  by (simp add: answers_def)

lemma answers_Suc_Cons: "answers (Suc n) ((took, out) # script) = out # answers n script"
  by (simp add: answers_def)

lemma answers_0: "answers 0 script = []"
  by (simp add: answers_def)

lemma delete_each_sent:
  "sent (delete_each url snaps w) = sent w @ map (\<lambda>snap. url (snap_id snap)) snaps"
proof (induction snaps arbitrary: w)
  case Nil
  show ?case by simp
next
  case (Cons snap snaps)
  show ?case
    by (cases "replies w") (auto simp: Cons.IH http_request_def)
qed

lemma delete_each_logged:
  "logged (delete_each url snaps w)
     = logged w @ concat (map delete_log (answers (length snaps) (replies w)))"
proof (induction snaps arbitrary: w)
  case Nil
  show ?case by (simp add: answers_0)
next
  case (Cons snap snaps)
  show ?case
  proof (cases "replies w")
    case Nil
    then show ?thesis
      by (simp add: Cons.IH http_request_def answers_Suc_Nil)
  next
    case (Cons r script)
    then show ?thesis
      by (cases r) (simp add: Cons.IH http_request_def answers_Suc_Cons)
  qed
qed

lemma delete_each_final_status:
  "final_status (delete_each url snaps w) = final_status w
   \<and> utc_offset (delete_each url snaps w) = utc_offset w"
proof (induction snaps arbitrary: w)
  case Nil
  show ?case by simp
next
  case (Cons snap snaps)
  show ?case
    by (cases "replies w") (auto simp: Cons.IH http_request_def)
qed

text \<open>The delete request that \<^verbatim>\<open>delete_snapshots\<close> issues for a record of a server.\<close>

definition delete_request :: "server_config \<Rightarrow> snapshot \<Rightarrow> request" where
  "delete_request server snap =
     (if provider server = ''hetzner'' then DeleteImage (snap_id snap)
      else DeleteSnapshot (snap_id snap))"

lemma delete_snapshots_sent:
  "provider server = ''digitalocean'' \<or> provider server = ''hetzner'' \<or> snaps = [] \<Longrightarrow>
     sent (delete_snapshots server snaps w) = sent w @ map (delete_request server) snaps"
  by (auto simp: delete_snapshots_def delete_digitalocean_snapshots_def
      delete_hetzner_snapshots_def delete_each_sent delete_request_def log_record_def)

lemma delete_snapshots_final_status:
  "final_status (delete_snapshots server snaps w) = final_status w
   \<and> utc_offset (delete_snapshots server snaps w) = utc_offset w"
  by (simp add: delete_snapshots_def delete_digitalocean_snapshots_def
      delete_hetzner_snapshots_def delete_each_final_status log_record_def)

subsection \<open>Notifying\<close>

lemma attempts_steps:
  "P rq \<Longrightarrow> steps P w (snd (attempts rq ok channel max_retries base ks w))"
proof (induction ks arbitrary: w)
  case Nil
  show ?case by (simp add: steps_log)
next
  case (Cons k ks)
  obtain out w1 where req: "http_request rq w = (out, w1)"
    by force
  have s1: "steps P w w1"
    using Cons.prems req by (rule steps_http)
  let ?w2 = "log_record WARNING
               (case out of Response code b \<Rightarrow> channel @ '' API error''
                | _ \<Rightarrow> channel @ '' notification failed'') w1"
  have s2: "steps P w ?w2"
    using s1 by (rule steps_log_after)
  obtain r w3 where sl: "sleep (base * 2 ^ nat (k - 1)) ?w2 = (r, w3)"
    by force
  have s3: "steps P w w3"
    using s2 steps_sleep [OF sl] steps_trans by blast
  have a: "steps P w (snd (attempts rq ok channel max_retries base ks ?w2))"
    using s2 Cons.IH [OF Cons.prems] steps_trans by blast
  have b: "steps P w (snd (attempts rq ok channel max_retries base ks w3))"
    using s3 Cons.IH [OF Cons.prems] steps_trans by blast
  show ?case
    using s1 s3 a b by (auto simp: req sl Let_def split: sum.splits)
qed







subsection \<open>The workflow\<close>

lemma create_digitalocean_snapshot_steps:
  "steps is_creation w (snd (create_digitalocean_snapshot cfg server w))"
proof -
  have s1: "\<And>n out w1. http_request (PostDropletAction (server_id server) n) w = (out, w1)
              \<Longrightarrow> steps is_creation w w1"
    by (erule steps_http [rotated]) (simp add: is_creation_def)
  have "\<And>aid w1. steps is_creation w1
          (snd (wait_for_digitalocean_action aid (SNAPSHOT_CREATION_TIMEOUT cfg) w1))"
    unfolding wait_for_digitalocean_action_def
    by (rule poll_action_steps) (simp add: is_creation_def)
  then have s2: "\<And>aid r w1 w2. steps is_creation w w1 \<Longrightarrow>
      wait_for_digitalocean_action aid (SNAPSHOT_CREATION_TIMEOUT cfg) w1 = (r, w2)
        \<Longrightarrow> steps is_creation w w2"
    using steps_trans by (metis snd_conv)
  have s3: "\<And>w1 lvl msg. steps is_creation w w1
              \<Longrightarrow> steps is_creation w (log_record lvl msg w1)"
    by (rule steps_log_after)
  show ?thesis
    by (auto simp: create_digitalocean_snapshot_def Let_def
        split: outcome.splits sum.splits prod.splits dest!: s1 intro: s2 s3)
qed

lemma create_hetzner_snapshot_steps:
  "steps is_creation w (snd (create_hetzner_snapshot cfg server w))"
proof -
  have s1: "\<And>n out w1. http_request (PostCreateImage (server_id server) n) w = (out, w1)
              \<Longrightarrow> steps is_creation w w1"
    by (erule steps_http [rotated]) (simp add: is_creation_def)
  have "\<And>aid w1. steps is_creation w1
          (snd (wait_for_hetzner_action aid (SNAPSHOT_CREATION_TIMEOUT cfg) w1))"
    unfolding wait_for_hetzner_action_def
    by (rule poll_action_steps) (simp add: is_creation_def)
  then have s2: "\<And>aid r w1 w2. steps is_creation w w1 \<Longrightarrow>
      wait_for_hetzner_action aid (SNAPSHOT_CREATION_TIMEOUT cfg) w1 = (r, w2)
        \<Longrightarrow> steps is_creation w w2"
    using steps_trans by (metis snd_conv)
  have s3: "\<And>w1 lvl msg. steps is_creation w w1
              \<Longrightarrow> steps is_creation w (log_record lvl msg w1)"
    by (rule steps_log_after)
  show ?thesis
    by (auto simp: create_hetzner_snapshot_def Let_def
        split: outcome.splits sum.splits prod.splits dest!: s1 intro: s2 s3)
qed

text \<open>
  The requests of a create call: first the create request, carrying the generated name,
  then polls of the action and nothing else.
\<close>

lemma create_digitalocean_snapshot_posts:
  "\<exists>polls. sent (snd (create_digitalocean_snapshot cfg server w))
      = sent w @ PostDropletAction (server_id server)
                   (server_name server @ ''-'' @ strftime (datetime_now w)) # polls
     \<and> (\<forall>r \<in> set polls. \<exists>aid. r = GetDigitaloceanAction aid)"
proof -
  define name where "name = server_name server @ ''-'' @ strftime (datetime_now w)"
  define P where "P = (\<lambda>r. \<exists>aid. r = GetDigitaloceanAction aid)"
  obtain out w1 where req: "http_request (PostDropletAction (server_id server) name) w = (out, w1)"
    by force
  have s1: "sent w1 = sent w @ [PostDropletAction (server_id server) name]"
    using req by (auto simp: http_request_def split: list.splits)
  have poll: "\<And>aid r w2.
      wait_for_digitalocean_action aid (SNAPSHOT_CREATION_TIMEOUT cfg) w1 = (r, w2)
        \<Longrightarrow> steps P w1 w2"
  proof -
    fix aid r w2
    assume "wait_for_digitalocean_action aid (SNAPSHOT_CREATION_TIMEOUT cfg) w1 = (r, w2)"
    then have "w2 = snd (poll_action digitalocean_poll (GetDigitaloceanAction aid)
                           (SNAPSHOT_CREATION_TIMEOUT cfg) (clock w1) w1)"
      by (simp add: wait_for_digitalocean_action_def)
    then show "steps P w1 w2"
      using poll_action_steps [of P "GetDigitaloceanAction aid"] by (simp add: P_def)
  qed
  have after: "steps P w1 (snd (create_digitalocean_snapshot cfg server w))"
  proof (cases out)
    case RequestException
    then show ?thesis
      unfolding create_digitalocean_snapshot_def Let_def name_def [symmetric]
      by (simp add: req steps_log)
  next
    case OtherException
    then show ?thesis
      unfolding create_digitalocean_snapshot_def Let_def name_def [symmetric]
      by (simp add: req steps_log)
  next
    case (Response code b)
    obtain r w2 where wt: "wait_for_digitalocean_action (id_value (action_id_of b))
                             (SNAPSHOT_CREATION_TIMEOUT cfg) w1 = (r, w2)"
      by force
    note p = poll [OF wt]
    show ?thesis
      unfolding create_digitalocean_snapshot_def Let_def name_def [symmetric]
      using p steps_log_after [OF p]
      by (cases r) (simp_all add: req Response wt steps_log steps_refl)
  qed
  then obtain rs where "sent (snd (create_digitalocean_snapshot cfg server w)) = sent w1 @ rs"
    and "\<forall>r \<in> set rs. P r"
    unfolding steps_def by blast
  then show ?thesis
    unfolding name_def [symmetric] using s1 by (auto simp: P_def)
qed

lemma create_hetzner_snapshot_posts:
  "\<exists>polls. sent (snd (create_hetzner_snapshot cfg server w))
      = sent w @ PostCreateImage (server_id server)
                   (server_name server @ ''-'' @ strftime (datetime_now w)) # polls
     \<and> (\<forall>r \<in> set polls. \<exists>aid. r = GetHetznerAction aid)"
proof -
  define name where "name = server_name server @ ''-'' @ strftime (datetime_now w)"
  define P where "P = (\<lambda>r. \<exists>aid. r = GetHetznerAction aid)"
  obtain out w1 where req: "http_request (PostCreateImage (server_id server) name) w = (out, w1)"
    by force
  have s1: "sent w1 = sent w @ [PostCreateImage (server_id server) name]"
    using req by (auto simp: http_request_def split: list.splits)
  have poll: "\<And>aid r w2.
      wait_for_hetzner_action aid (SNAPSHOT_CREATION_TIMEOUT cfg) w1 = (r, w2)
        \<Longrightarrow> steps P w1 w2"
  proof -
    fix aid r w2
    assume "wait_for_hetzner_action aid (SNAPSHOT_CREATION_TIMEOUT cfg) w1 = (r, w2)"
    then have "w2 = snd (poll_action hetzner_poll (GetHetznerAction aid)
                           (SNAPSHOT_CREATION_TIMEOUT cfg) (clock w1) w1)"
      by (simp add: wait_for_hetzner_action_def)
    then show "steps P w1 w2"
      using poll_action_steps [of P "GetHetznerAction aid"] by (simp add: P_def)
  qed
  have after: "steps P w1 (snd (create_hetzner_snapshot cfg server w))"
  proof (cases out)
    case RequestException
    then show ?thesis
      unfolding create_hetzner_snapshot_def Let_def name_def [symmetric]
      by (simp add: req steps_log)
  next
    case OtherException
    then show ?thesis
      unfolding create_hetzner_snapshot_def Let_def name_def [symmetric]
      by (simp add: req steps_log)
  next
    case (Response code b)
    obtain r w2 where wt: "wait_for_hetzner_action (id_value (action_id_of b))
                             (SNAPSHOT_CREATION_TIMEOUT cfg) w1 = (r, w2)"
      by force
    note p = poll [OF wt]
    show ?thesis
      unfolding create_hetzner_snapshot_def Let_def name_def [symmetric]
      using p steps_log_after [OF p]
      by (cases r) (simp_all add: req Response wt steps_log steps_refl)
  qed
  then obtain rs where "sent (snd (create_hetzner_snapshot cfg server w)) = sent w1 @ rs"
    and "\<forall>r \<in> set rs. P r"
    unfolding steps_def by blast
  then show ?thesis
    unfolding name_def [symmetric] using s1 by (auto simp: P_def)
qed

lemma create_snapshot_steps: "steps is_creation w (snd (create_snapshot cfg server w))"
  by (simp add: create_snapshot_def create_digitalocean_snapshot_steps
      create_hetzner_snapshot_steps steps_log)

text \<open>A name that a create method returns is never the empty string.\<close>

lemma create_snapshot_Some:
  assumes "create_snapshot cfg server w = (Some n, w')"
  shows "n = server_name server @ ''-'' @ strftime (datetime_now w)"
proof -
  have "create_digitalocean_snapshot cfg server w = (Some n, w')
        \<or> create_hetzner_snapshot cfg server w = (Some n, w')"
    using assms by (auto simp: create_snapshot_def split: if_splits)
  then show ?thesis
    using create_digitalocean_snapshot_Some [of cfg server w n w']
      create_hetzner_snapshot_Some [of cfg server w n w']
    by blast
qed

lemma create_snapshot_truthy:
  "truthy (fst (create_snapshot cfg server w)) \<longleftrightarrow> fst (create_snapshot cfg server w) \<noteq> None"
proof (cases "fst (create_snapshot cfg server w)")
  case None
  then show ?thesis by (simp add: truthy_def)
next
  case (Some n)
  then have "create_snapshot cfg server w = (Some n, snd (create_snapshot cfg server w))"
    by (metis prod.collapse)
  then have "n = server_name server @ ''-'' @ strftime (datetime_now w)"
    by (rule create_snapshot_Some)
  then have "n \<noteq> []"
    by simp
  then show ?thesis
    using Some by (simp add: truthy_def)
qed

lemma send_telegram_notification_steps:
  "steps is_notification w
     (snd (send_telegram_notification cfg bot_token chat_id retries base_delay w))"
  by (simp add: send_telegram_notification_def Let_def steps_refl attempts_steps
      is_notification_def del: upto.simps)

lemma send_webhook_notification_steps:
  "steps is_notification w
     (snd (send_webhook_notification cfg url timeout retries base_delay w))"
  by (simp add: send_webhook_notification_def Let_def steps_refl attempts_steps
      is_notification_def del: upto.simps)


lemma get_snapshots_known_provider:
  "fst (get_snapshots server w) \<noteq> [] \<Longrightarrow>
     provider server = ''digitalocean'' \<or> provider server = ''hetzner''"
  by (cases "provider server = ''digitalocean''"; cases "provider server = ''hetzner''")
     (simp_all add: get_snapshots_def)

lemma identify_subset:
  "set (fst (identify_snapshots_to_delete L retain)) \<subseteq> set L"
proof -
  have "set (slice_from (sort_reverse L) retain) \<subseteq> set (sort_reverse L)"
    by (simp add: slice_from_def set_drop_subset)
  then show ?thesis
    by (simp add: identify_snapshots_to_delete_def Let_def set_sort_reverse)
qed

lemma snd_reraise:
  "snd (case p of (Inl e, w) \<Rightarrow> (Inl e, w) | (Inr b, w) \<Rightarrow> (Inr (f b), w)) = snd p"
  by (cases p; cases "fst p") simp_all

text \<open>
  \<^verbatim>\<open>write_final_status\<close> writes its line first; whatever the notifications then do, and
  whether or not one of them raises, the line is there and only notification requests
  have been sent.
\<close>

lemma write_final_status_effect:
  "final_status (snd (write_final_status cfg server snapshot_name tot status w))
     = final_status w @
         [\<lparr>fs_provider = provider server, fs_server = server_name server, fs_status = status,
           fs_snapshot_name = snapshot_name, fs_total_snapshots = tot\<rparr>]
   \<and> (\<exists>ns. sent (snd (write_final_status cfg server snapshot_name tot status w))
             = sent w @ ns \<and> (\<forall>r \<in> set ns. is_notification r))"
proof -
  let ?line = "\<lparr>fs_provider = provider server, fs_server = server_name server,
                fs_status = status, fs_snapshot_name = snapshot_name,
                fs_total_snapshots = tot\<rparr>"
  define w1 where "w1 = w\<lparr>final_status := final_status w @ [?line]\<rparr>"
  define telegram where "telegram =
            (if telegram_enabled server
             then if truthy (telegram_bot_token server) \<and> truthy (telegram_chat_id server)
                  then send_telegram_notification cfg (telegram_bot_token server)
                         (telegram_chat_id server) None None w1
                  else if truthy (TELEGRAM_BOT_TOKEN cfg) \<and> truthy (TELEGRAM_CHAT_ID cfg)
                  then send_telegram_notification cfg None None None None w1
                  else (Inr False, w1)
             else (Inr False, w1))"
  define url where "url =
                    (if webhook_enabled server
                     then if truthy (webhook_url server) then webhook_url server
                          else if truthy (WEBHOOK_URL cfg) then WEBHOOK_URL cfg else None
                     else None)"
  define w2 where "w2 = snd telegram"
  have t: "steps is_notification w1 w2"
    unfolding w2_def telegram_def
    by (simp add: send_telegram_notification_steps steps_refl)
  define hook where "hook = send_webhook_notification cfg url
                              (Some (WEBHOOK_TIMEOUT cfg)) (Some (WEBHOOK_RETRIES cfg))
                              (Some (WEBHOOK_BASE_DELAY_BETWEEN_RETRIES cfg)) w2"
  have h: "steps is_notification w1 (snd hook)"
    unfolding hook_def using t send_webhook_notification_steps steps_trans by blast
  have unfold: "write_final_status cfg server snapshot_name tot status w
      = (case telegram of
           (Inl e, w2) \<Rightarrow> (Inl e, w2)
         | (Inr sent_telegram, w2) \<Rightarrow>
             if truthy url
             then (case send_webhook_notification cfg url
                          (Some (WEBHOOK_TIMEOUT cfg)) (Some (WEBHOOK_RETRIES cfg))
                          (Some (WEBHOOK_BASE_DELAY_BETWEEN_RETRIES cfg)) w2 of
                     (Inl e, w3) \<Rightarrow> (Inl e, w3)
                   | (Inr sent_webhook, w3) \<Rightarrow> (Inr (), w3))
             else (Inr (), w2))"
    unfolding write_final_status_def Let_def w1_def [symmetric] telegram_def [symmetric]
      url_def [symmetric]
    by (rule refl)
  have "snd (write_final_status cfg server snapshot_name tot status w) = w2
        \<or> snd (write_final_status cfg server snapshot_name tot status w) = snd hook"
  proof (cases "fst telegram")
    case (Inl e)
    then have "telegram = (Inl e, w2)"
      unfolding w2_def by (metis prod.collapse)
    then show ?thesis
      unfolding unfold by simp
  next
    case (Inr b)
    then have tel: "telegram = (Inr b, w2)"
      unfolding w2_def by (metis prod.collapse)
    show ?thesis
    proof (cases "truthy url")
      case False
      then show ?thesis
        unfolding unfold tel by simp
    next
      case True
      then show ?thesis
        unfolding unfold tel hook_def by (simp add: snd_reraise)
    qed
  qed
  then have "steps is_notification w1
               (snd (write_final_status cfg server snapshot_name tot status w))"
    using t h by auto
  then show ?thesis
    unfolding steps_def by (auto simp: w1_def)
qed

text \<open>
  The requests of one pass of the workflow, in order: the listing, the creation, one
  delete request for each selected record, the second listing, the notifications. The
  selected records are those that \<^verbatim>\<open>identify_snapshots_to_delete\<close> picks from the first
  listing. The pass writes one FINAL\_STATUS line.
\<close>

lemma manage_trace:
  fixes cfg server w
  defines "L \<equiv> fst (get_snapshots server w)"
    and "w1 \<equiv> snd (get_snapshots server w)"
  defines "D \<equiv> fst (identify_snapshots_to_delete L (retain_last_snapshots server))"
    and "name \<equiv> fst (create_snapshot cfg server w1)"
    and "w2 \<equiv> snd (create_snapshot cfg server w1)"
    and "w' \<equiv> snd (manage_snapshots_for_server cfg server w)"
  shows "\<exists>ls cs ls' ns tot.
           sent w1 = sent w @ ls \<and> sent w2 = sent w1 @ cs
           \<and> sent w' = sent w2 @ map (delete_request server) D @ ls' @ ns
           \<and> (\<forall>r \<in> set ls. is_listing r) \<and> (\<forall>r \<in> set cs. is_creation r)
           \<and> (\<forall>r \<in> set ls'. is_listing r) \<and> (\<forall>r \<in> set ns. is_notification r)
           \<and> final_status w' = final_status w @
               [\<lparr>fs_provider = provider server, fs_server = server_name server,
                 fs_status = (if name \<noteq> None then ''success'' else ''failure''),
                 fs_snapshot_name = (case name of Some n \<Rightarrow> n | None \<Rightarrow> ''none''),
                 fs_total_snapshots = tot\<rparr>]"
proof -
  define w3 where "w3 = (if D \<noteq> [] then delete_snapshots server D w2 else w2)"
  define updated where "updated = fst (get_snapshots server w3)"
  define w4 where "w4 = snd (get_snapshots server w3)"
  let ?status = "if truthy name then ''success'' else ''failure''"
  let ?shown = "if truthy name then text_of name else ''none''"
  have unfold: "manage_snapshots_for_server cfg server w
      = write_final_status cfg server ?shown (length updated) ?status w4"
    by (simp add: manage_snapshots_for_server_def Let_def case_prod_beta
        L_def w1_def D_def name_def w2_def w3_def updated_def w4_def)
  have t: "truthy name \<longleftrightarrow> name \<noteq> None"
    unfolding name_def by (rule create_snapshot_truthy)
  have status: "?status = (if name \<noteq> None then ''success'' else ''failure'')"
    using t by simp
  have shown: "?shown = (case name of Some n \<Rightarrow> n | None \<Rightarrow> ''none'')"
    using t by (cases name) (simp_all add: text_of_def)
  obtain ls where ls: "sent w1 = sent w @ ls" "\<forall>r \<in> set ls. is_listing r"
    and f1: "final_status w1 = final_status w"
    using get_snapshots_steps [of w server] unfolding w1_def steps_def by blast
  obtain cs where cs: "sent w2 = sent w1 @ cs" "\<forall>r \<in> set cs. is_creation r"
    and f2: "final_status w2 = final_status w1"
    using create_snapshot_steps [of w1 cfg server] unfolding w2_def steps_def by blast
  have known: "D \<noteq> [] \<Longrightarrow> provider server = ''digitalocean'' \<or> provider server = ''hetzner''"
  proof -
    assume "D \<noteq> []"
    then have "L \<noteq> []"
      using identify_subset [of L "retain_last_snapshots server"] unfolding D_def by auto
    then show ?thesis
      unfolding L_def by (rule get_snapshots_known_provider)
  qed
  have ds: "sent w3 = sent w2 @ map (delete_request server) D"
    using known by (cases "D = []") (simp_all add: w3_def delete_snapshots_sent)
  have f3: "final_status w3 = final_status w2"
    by (simp add: w3_def delete_snapshots_final_status)
  obtain ls' where ls': "sent w4 = sent w3 @ ls'" "\<forall>r \<in> set ls'. is_listing r"
    and f4: "final_status w4 = final_status w3"
    using get_snapshots_steps [of w3 server] unfolding w4_def steps_def by blast
  obtain ns where ns: "sent w' = sent w4 @ ns" "\<forall>r \<in> set ns. is_notification r"
    using write_final_status_effect [of cfg server ?shown "length updated" ?status w4]
    unfolding w'_def unfold by blast
  have fs: "final_status w' = final_status w4 @
               [\<lparr>fs_provider = provider server, fs_server = server_name server,
                 fs_status = (if name \<noteq> None then ''success'' else ''failure''),
                 fs_snapshot_name = (case name of Some n \<Rightarrow> n | None \<Rightarrow> ''none''),
                 fs_total_snapshots = length updated\<rparr>]"
    using write_final_status_effect [of cfg server ?shown "length updated" ?status w4]
    unfolding w'_def unfold status shown by blast
  have "sent w' = sent w2 @ map (delete_request server) D @ ls' @ ns"
    using ns(1) ls'(1) ds by simp
  moreover have "final_status w4 = final_status w"
    using f1 f2 f3 f4 by simp
  ultimately show ?thesis
    using ls cs ls'(2) ns(2) fs by metis
qed


lemma kinds_not_deletion:
  "is_listing r \<Longrightarrow> \<not> is_deletion r"
  "is_creation r \<Longrightarrow> \<not> is_deletion r"
  "is_notification r \<Longrightarrow> \<not> is_deletion r"
  by (cases r; simp add: is_listing_def is_creation_def is_notification_def is_deletion_def)+

lemma is_deletion_delete_request: "is_deletion (delete_request server snap)"
  by (simp add: is_deletion_def delete_request_def)

lemma delete_request_id:
  "delete_request server snap = DeleteSnapshot i \<or> delete_request server snap = DeleteImage i
     \<Longrightarrow> snap_id snap = i"
  by (auto simp: delete_request_def split: if_splits)

text \<open>
  The delete requests among those that one pass of the workflow sends are exactly the
  ones for the selected records, in order.
\<close>

lemma manage_deletions:
  fixes cfg server w
  defines "D \<equiv> fst (identify_snapshots_to_delete (fst (get_snapshots server w))
                      (retain_last_snapshots server))"
    and "w' \<equiv> snd (manage_snapshots_for_server cfg server w)"
  shows "filter is_deletion (drop (length (sent w)) (sent w')) = map (delete_request server) D"
proof -
  obtain ls cs ls' ns where
    s1: "sent (snd (get_snapshots server w)) = sent w @ ls"
    and s2: "sent (snd (create_snapshot cfg server (snd (get_snapshots server w))))
               = sent (snd (get_snapshots server w)) @ cs"
    and s3: "sent w' = sent (snd (create_snapshot cfg server (snd (get_snapshots server w))))
               @ map (delete_request server) D @ ls' @ ns"
    and k: "\<forall>r \<in> set ls. is_listing r" "\<forall>r \<in> set cs. is_creation r"
      "\<forall>r \<in> set ls'. is_listing r" "\<forall>r \<in> set ns. is_notification r"
    using manage_trace [of server w cfg] unfolding D_def w'_def by blast
  have all: "sent w' = sent w @ ls @ cs @ map (delete_request server) D @ ls' @ ns"
    using s1 s2 s3 by simp
  have none: "filter is_deletion ls = []" "filter is_deletion cs = []"
    "filter is_deletion ls' = []" "filter is_deletion ns = []"
    using k kinds_not_deletion by (simp_all add: filter_empty_conv)
  have every: "filter is_deletion (map (delete_request server) D) = map (delete_request server) D"
    by (simp add: is_deletion_delete_request)
  show ?thesis
    unfolding all by (simp add: none every)
qed

subsection \<open>The run\<close>

text \<open>
  How each pass through the loop body of \<^verbatim>\<open>run\<close> ended, in the order of the servers: whether
  the workflow returned without raising, and whether an exception reached the handler of
  the \<^verbatim>\<open>try\<close> block (from the workflow, or from the wait that follows it).
\<close>

fun passes ::
  "settings \<Rightarrow> nat \<Rightarrow> nat \<Rightarrow> server_config list \<Rightarrow> world \<Rightarrow> (bool \<times> bool) list"
where
  "passes cfg n idx [] w = []"
| "passes cfg n idx (server # servers) w =
     (case manage_snapshots_for_server cfg server w of
        (Inl e, w1) \<Rightarrow>
          (False, True)
            # passes cfg n (idx + 1) servers (log_record ERROR ''An unexpected error occurred'' w1)
      | (Inr u, w1) \<Rightarrow>
          if int idx < int n - 1
          then (case sleep (DELAY_BETWEEN_SERVERS cfg) w1 of
                  (Inl e, w2) \<Rightarrow>
                    (True, True)
                      # passes cfg n (idx + 1) servers
                          (log_record ERROR ''An unexpected error occurred'' w2)
                | (Inr u', w2) \<Rightarrow> (True, False) # passes cfg n (idx + 1) servers w2)
          else (True, False) # passes cfg n (idx + 1) servers w1)"

definition workflow_returned :: "bool \<times> bool \<Rightarrow> bool" where
  "workflow_returned p = fst p"

definition handler_reached :: "bool \<times> bool \<Rightarrow> bool" where
  "handler_reached p = snd p"

text \<open>The two counters when the loop of \<^verbatim>\<open>run\<close> has ended.\<close>

definition success_count :: "settings \<Rightarrow> server_config list \<Rightarrow> world \<Rightarrow> nat" where
  "success_count cfg servers w = fst (fst (run_loop cfg (length servers) 0 servers (0, 0) w))"

definition failure_count :: "settings \<Rightarrow> server_config list \<Rightarrow> world \<Rightarrow> nat" where
  "failure_count cfg servers w = snd (fst (run_loop cfg (length servers) 0 servers (0, 0) w))"

lemma length_passes: "length (passes cfg n idx servers w) = length servers"
proof (induction servers arbitrary: idx w)
  case Nil
  show ?case by simp
next
  case (Cons server servers)
  obtain r w1 where m: "manage_snapshots_for_server cfg server w = (r, w1)"
    by force
  obtain r' w2 where s: "sleep (DELAY_BETWEEN_SERVERS cfg) w1 = (r', w2)"
    by force
  show ?case
    by (cases r; cases r') (simp_all add: m s Cons.IH)
qed

lemma run_loop_counts:
  "fst (run_loop cfg n idx servers (s, f) w)
     = (s + length (filter workflow_returned (passes cfg n idx servers w)),
        f + length (filter handler_reached (passes cfg n idx servers w)))"
proof (induction servers arbitrary: idx s f w)
  case Nil
  show ?case by simp
next
  case (Cons server servers)
  obtain r w1 where m: "manage_snapshots_for_server cfg server w = (r, w1)"
    by force
  obtain r' w2 where sl: "sleep (DELAY_BETWEEN_SERVERS cfg) w1 = (r', w2)"
    by force
  show ?case
    by (cases r; cases r')
       (simp_all add: m sl Cons.IH workflow_returned_def handler_reached_def)
qed

lemma counts_passes:
  "success_count cfg servers w
     = length (filter workflow_returned (passes cfg (length servers) 0 servers w))"
  "failure_count cfg servers w
     = length (filter handler_reached (passes cfg (length servers) 0 servers w))"
  by (simp_all add: success_count_def failure_count_def run_loop_counts)

lemma exit_code_counts:
  "exit_code cfg servers w =
     (if servers = [] \<or> failure_count cfg servers w = 0 then 0
      else if success_count cfg servers w = 0 then 1 else 2)"
proof -
  obtain s f w1 where r: "run_loop cfg (length servers) 0 servers (0, 0) w = ((s, f), w1)"
    by (metis prod.collapse)
  show ?thesis
    by (simp add: exit_code_def run_def r success_count_def failure_count_def)
qed

lemma passes_cases:
  "p \<in> set (passes cfg n idx servers w) \<Longrightarrow> workflow_returned p \<or> handler_reached p"
proof (induction servers arbitrary: idx w)
  case Nil
  then show ?case by simp
next
  case (Cons server servers)
  obtain r w1 where m: "manage_snapshots_for_server cfg server w = (r, w1)"
    by force
  obtain r' w2 where sl: "sleep (DELAY_BETWEEN_SERVERS cfg) w1 = (r', w2)"
    by force
  show ?case
    using Cons.prems Cons.IH
    by (cases r; cases r')
       (auto simp: m sl workflow_returned_def handler_reached_def split: if_splits)
qed



section \<open>Example configurations and worlds\<close>

text \<open>
  The settings of the examples: the script's defaults for the timeout and the retries, a
  wait of five seconds between servers, and no global notification credentials.
\<close>

definition default_settings :: settings where
  "default_settings =
     \<lparr>DELAY_BETWEEN_SERVERS = 5, SNAPSHOT_CREATION_TIMEOUT = 900, TELEGRAM_BOT_TOKEN = None,
      TELEGRAM_CHAT_ID = None, TELEGRAM_RETRIES = 3, TELEGRAM_BASE_DELAY_BETWEEN_RETRIES = 2,
      WEBHOOK_URL = None, WEBHOOK_TIMEOUT = 10, WEBHOOK_RETRIES = 3,
      WEBHOOK_BASE_DELAY_BETWEEN_RETRIES = 2\<rparr>"

text \<open>A droplet named \<^verbatim>\<open>web\<close> that keeps three snapshots and sends no notifications.\<close>

definition droplet_web :: server_config where
  "droplet_web =
     \<lparr>provider = ''digitalocean'', server_id = ''4711'', server_name = ''web'',
      api_token = ''secret'', retain_last_snapshots = 3, telegram_enabled = False,
      telegram_bot_token = None, telegram_chat_id = None, webhook_enabled = False,
      webhook_url = None\<rparr>"

text \<open>A world at 2024-12-02 13:32:34 UTC with the given UTC offset and script of replies.\<close>

definition world_at_noon :: "int \<Rightarrow> (nat \<times> outcome) list \<Rightarrow> world" where
  "world_at_noon offset script =
     \<lparr>replies = script, sent = [], clock = 1733146354, utc_offset = offset, slept = [],
      logged = [], final_status = [], events = []\<rparr>"

text \<open>The same droplet keeping one snapshot, and a creation timeout of ten seconds.\<close>

definition droplet_keep_one :: server_config where
  "droplet_keep_one = droplet_web\<lparr>retain_last_snapshots := 1\<rparr>"

definition quick_settings :: settings where
  "quick_settings = default_settings\<lparr>SNAPSHOT_CREATION_TIMEOUT := 10\<rparr>"

text \<open>A snapshot of droplet 4711 as the listing reports it.\<close>

definition listed :: "string \<Rightarrow> string \<Rightarrow> int \<Rightarrow> digitalocean_item" where
  "listed i n t = \<lparr>do_resource_id = ''4711'', do_name = n, do_id = i, do_created_at = Some t\<rparr>"

text \<open>
  A run in which the droplet has two snapshots, the create action is still in progress
  when the ten seconds are over, the older snapshot is deleted, and the second listing
  shows the one that is left.
\<close>

definition creation_times_out :: "(nat \<times> outcome) list" where
  "creation_times_out =
     [(1, Response 200 (Snapshots [listed ''900'' ''web-20241130000000'' 100,
                                   listed ''901'' ''web-20241201000000'' 200] False)),
      (1, Response 201 (Action (Some 77) None (Some ''in-progress''))),
      (1, Response 200 (Action (Some 77) None (Some ''in-progress''))),
      (1, Response 200 (Action (Some 77) None (Some ''in-progress''))),
      (1, Response 204 Other),
      (1, Response 200 (Snapshots [listed ''901'' ''web-20241201000000'' 200] False))]"

text \<open>
  A run in which the droplet has two snapshots, the new one is created, the older one
  is deleted, and the second listing shows the newer one and the new one (id 950).
\<close>

definition creation_succeeds :: "(nat \<times> outcome) list" where
  "creation_succeeds =
     [(1, Response 200 (Snapshots [listed ''900'' ''web-20241130000000'' 100,
                                   listed ''901'' ''web-20241201000000'' 200] False)),
      (1, Response 201 (Action (Some 77) None (Some ''in-progress''))),
      (1, Response 200 (Action (Some 77) None (Some ''completed''))),
      (1, Response 204 Other),
      (1, Response 200 (Snapshots [listed ''901'' ''web-20241201000000'' 200,
                                   listed ''950'' ''web-20241202133235'' 300] False))]"





section \<open>Retention selector: results\<close>

text \<open>
  C1 (as amended). For a retain count \<open>retain \<ge> 0\<close> and any list of snapshots,
  \<^verbatim>\<open>identify_snapshots_to_delete\<close> returns exactly \<open>max 0 (|S| - retain)\<close> records; the
  kept records followed by the returned ones are the records of \<open>S\<close> in descending
  order of creation time, so the kept ones are the \<open>min retain |S|\<close> most recent and the
  returned list is itself in descending order; and every returned record is no newer
  than every kept record. (Strictly older fails when timestamps tie.)
\<close>

theorem identify_snapshots_to_delete_selection:
  assumes "0 \<le> retain"
  shows "int (length (fst (identify_snapshots_to_delete S retain)))
           = max 0 (int (length S) - retain)
       \<and> int (length (kept_snapshots S retain)) = min retain (int (length S))
       \<and> mset (kept_snapshots S retain @ fst (identify_snapshots_to_delete S retain)) = mset S
       \<and> descending (kept_snapshots S retain @ fst (identify_snapshots_to_delete S retain))
       \<and> (\<forall>d \<in> set (fst (identify_snapshots_to_delete S retain)).
            \<forall>k \<in> set (kept_snapshots S retain). created_at d \<le> created_at k)
       \<and> descending (fst (identify_snapshots_to_delete S retain))"
proof -
  let ?sorted = "sort_reverse S"
  have del: "fst (identify_snapshots_to_delete S retain) = slice_from ?sorted retain"
    by (simp add: identify_snapshots_to_delete_def Let_def)
  have kept: "kept_snapshots S retain = slice_to ?sorted retain"
    by (simp add: kept_snapshots_def identify_snapshots_to_delete_def Let_def)
  have whole: "slice_to ?sorted retain @ slice_from ?sorted retain = ?sorted"
    by (rule slice_to_from)
  have desc: "descending (slice_to ?sorted retain @ slice_from ?sorted retain)"
    using descending_sort_reverse [of S] by (simp only: whole)
  have n_del: "int (length (slice_from ?sorted retain)) = max 0 (int (length S) - retain)"
    using assms length_slice_from_nonneg [of retain ?sorted]
    by (simp add: length_sort_reverse)
  have n_kept: "int (length (slice_to ?sorted retain)) = min retain (int (length S))"
    using assms length_slice_to_nonneg [of retain ?sorted]
    by (simp add: length_sort_reverse)
  have perm: "mset (slice_to ?sorted retain @ slice_from ?sorted retain) = mset S"
    by (simp only: whole mset_sort_reverse)
  have older: "\<forall>d \<in> set (slice_from ?sorted retain).
                 \<forall>k \<in> set (slice_to ?sorted retain). created_at d \<le> created_at k"
    using descending_append [OF desc] by blast
  have desc_del: "descending (slice_from ?sorted retain)"
    using desc by (rule descending_suffix)
  show ?thesis
    unfolding del kept using n_del n_kept perm desc older desc_del by blast
qed

theorem identify_snapshots_to_delete_selection_witness:
  "(0::int) \<le> 2
   \<and> fst (identify_snapshots_to_delete
        [\<lparr>snap_id = ''11'', snap_name = ''web-a'', created_at = 100\<rparr>,
         \<lparr>snap_id = ''12'', snap_name = ''web-b'', created_at = 300\<rparr>,
         \<lparr>snap_id = ''13'', snap_name = ''web-c'', created_at = 200\<rparr>] 2)
       = [\<lparr>snap_id = ''11'', snap_name = ''web-a'', created_at = 100\<rparr>]
   \<and> kept_snapshots
        [\<lparr>snap_id = ''11'', snap_name = ''web-a'', created_at = 100\<rparr>,
         \<lparr>snap_id = ''12'', snap_name = ''web-b'', created_at = 300\<rparr>,
         \<lparr>snap_id = ''13'', snap_name = ''web-c'', created_at = 200\<rparr>] 2
       = [\<lparr>snap_id = ''12'', snap_name = ''web-b'', created_at = 300\<rparr>,
          \<lparr>snap_id = ''13'', snap_name = ''web-c'', created_at = 200\<rparr>]
   \<and> int (length (fst (identify_snapshots_to_delete
        [\<lparr>snap_id = ''11'', snap_name = ''web-a'', created_at = 100\<rparr>,
         \<lparr>snap_id = ''12'', snap_name = ''web-b'', created_at = 300\<rparr>,
         \<lparr>snap_id = ''13'', snap_name = ''web-c'', created_at = 200\<rparr>] 2)))
       = max 0 (int (length
        [\<lparr>snap_id = ''11'', snap_name = ''web-a'', created_at = 100\<rparr>,
         \<lparr>snap_id = ''12'', snap_name = ''web-b'', created_at = 300\<rparr>,
         \<lparr>snap_id = ''13'', snap_name = ''web-c'', created_at = 200::int\<rparr>]) - 2)"
  using identify_snapshots_to_delete_selection
    [of 2 "[\<lparr>snap_id = ''11'', snap_name = ''web-a'', created_at = 100\<rparr>,
            \<lparr>snap_id = ''12'', snap_name = ''web-b'', created_at = 300\<rparr>,
            \<lparr>snap_id = ''13'', snap_name = ''web-c'', created_at = 200\<rparr>]"]
  by (simp add: identify_snapshots_to_delete_def kept_snapshots_def sort_reverse_def
      slice_from_def slice_to_def)

text \<open>
  C1 as stated fails: two snapshots created at the same instant, retain count 1. The
  second is returned for deletion, the first is kept, and the returned one is not
  strictly older than the kept one.
\<close>

theorem identify_snapshots_to_delete_tie_counterexample:
  "fst (identify_snapshots_to_delete
      [\<lparr>snap_id = ''21'', snap_name = ''web-a'', created_at = 500\<rparr>,
       \<lparr>snap_id = ''22'', snap_name = ''web-b'', created_at = 500\<rparr>] 1)
     = [\<lparr>snap_id = ''22'', snap_name = ''web-b'', created_at = 500\<rparr>]
   \<and> kept_snapshots
      [\<lparr>snap_id = ''21'', snap_name = ''web-a'', created_at = 500\<rparr>,
       \<lparr>snap_id = ''22'', snap_name = ''web-b'', created_at = 500\<rparr>] 1
     = [\<lparr>snap_id = ''21'', snap_name = ''web-a'', created_at = 500\<rparr>]
   \<and> \<not> created_at \<lparr>snap_id = ''22'', snap_name = ''web-b'', created_at = 500\<rparr>
        < created_at \<lparr>snap_id = ''21'', snap_name = ''web-a'', created_at = 500\<rparr>"
  by (simp add: identify_snapshots_to_delete_def kept_snapshots_def sort_reverse_def
      slice_from_def slice_to_def)

text \<open>
  C5 (as amended). The call sorts the caller's list in place: afterwards the list holds
  the same records, in descending order of creation time, and it is the list the caller
  passed exactly when that one was already in descending order. The returned list is the
  tail of the sorted list from index \<open>retain\<close>. Both are functions of the list and the
  retain count alone.
\<close>

theorem identify_snapshots_to_delete_sorts_in_place:
  "mset (snd (identify_snapshots_to_delete S retain)) = mset S
   \<and> descending (snd (identify_snapshots_to_delete S retain))
   \<and> (snd (identify_snapshots_to_delete S retain) = S \<longleftrightarrow> descending S)
   \<and> fst (identify_snapshots_to_delete S retain)
       = slice_from (snd (identify_snapshots_to_delete S retain)) retain"
  by (simp add: identify_snapshots_to_delete_def Let_def mset_sort_reverse
      descending_sort_reverse sort_reverse_fixpoint)

theorem identify_snapshots_to_delete_sorts_in_place_witness:
  "snd (identify_snapshots_to_delete
      [\<lparr>snap_id = ''32'', snap_name = ''web-b'', created_at = 300\<rparr>,
       \<lparr>snap_id = ''31'', snap_name = ''web-a'', created_at = 100\<rparr>] 1)
     = [\<lparr>snap_id = ''32'', snap_name = ''web-b'', created_at = 300\<rparr>,
        \<lparr>snap_id = ''31'', snap_name = ''web-a'', created_at = 100\<rparr>]"
  using identify_snapshots_to_delete_sorts_in_place
    [of "[\<lparr>snap_id = ''32'', snap_name = ''web-b'', created_at = 300\<rparr>,
          \<lparr>snap_id = ''31'', snap_name = ''web-a'', created_at = 100\<rparr>]" 1]
  by (simp add: descending_def identify_snapshots_to_delete_def sort_reverse_def Let_def)

text \<open>
  C5 as stated fails: a list given oldest first comes back newest first.
\<close>

theorem identify_snapshots_to_delete_mutation_counterexample:
  "snd (identify_snapshots_to_delete
      [\<lparr>snap_id = ''31'', snap_name = ''web-a'', created_at = 100\<rparr>,
       \<lparr>snap_id = ''32'', snap_name = ''web-b'', created_at = 300\<rparr>] 1)
     = [\<lparr>snap_id = ''32'', snap_name = ''web-b'', created_at = 300\<rparr>,
        \<lparr>snap_id = ''31'', snap_name = ''web-a'', created_at = 100\<rparr>]
   \<and> [\<lparr>snap_id = ''32'', snap_name = ''web-b'', created_at = 300\<rparr>,
      \<lparr>snap_id = ''31'', snap_name = ''web-a'', created_at = 100\<rparr>]
     \<noteq> [\<lparr>snap_id = ''31'', snap_name = ''web-a'', created_at = 100\<rparr>,
        \<lparr>snap_id = ''32'', snap_name = ''web-b'', created_at = (300::int)\<rparr>]"
  by (simp add: identify_snapshots_to_delete_def sort_reverse_def Let_def)

section \<open>Listing: results\<close>

text \<open>
  C6 (as amended). When the request for some page of a listing fails (it raises, or
  \<^verbatim>\<open>raise_for_status\<close> raises on its status), after a run of non-empty pages that each
  announced a further page, \<^verbatim>\<open>get_digitalocean_snapshots\<close> and \<^verbatim>\<open>get_hetzner_snapshots\<close>
  log an error and return the records collected from the pages before the failing one;
  the method returns normally, so the workflow goes on. The result is the empty list
  when it is the first page that fails.
\<close>

theorem listing_failure_returns_pages_so_far:
  assumes "replies w = good @ (took, out) # rest"
    and "request_fails out"
  shows "((\<forall>r \<in> set good. digitalocean_full_page r) \<longrightarrow>
            fst (get_digitalocean_snapshots server w)
              = concat (map (\<lambda>r. digitalocean_selected server (snapshots_of r)) good)
          \<and> ends_with_error {''[DIGITALOCEAN] Failed to fetch snapshots'',
                             ''[DIGITALOCEAN] Unexpected error fetching snapshots''}
               w (snd (get_digitalocean_snapshots server w)))
       \<and> ((\<forall>r \<in> set good. hetzner_full_page r) \<longrightarrow>
            fst (get_hetzner_snapshots server w)
              = concat (map (\<lambda>r. hetzner_selected server (images_of r)) good)
          \<and> ends_with_error {''[HETZNER] Failed to fetch snapshots'',
                             ''[HETZNER] Unexpected error fetching snapshots''}
               w (snd (get_hetzner_snapshots server w)))
       \<and> (good = [] \<longrightarrow> fst (get_snapshots server w) = [])"
proof (intro conjI impI)
  assume g: "\<forall>r \<in> set good. digitalocean_full_page r"
  show "fst (get_digitalocean_snapshots server w)
          = concat (map (\<lambda>r. digitalocean_selected server (snapshots_of r)) good)"
    using digitalocean_pages_failure [OF assms(1) g assms(2), of server 1 "[]"]
    by (simp add: get_digitalocean_snapshots_def)
  show "ends_with_error {''[DIGITALOCEAN] Failed to fetch snapshots'',
                         ''[DIGITALOCEAN] Unexpected error fetching snapshots''}
          w (snd (get_digitalocean_snapshots server w))"
    using digitalocean_pages_failure [OF assms(1) g assms(2), of server 1 "[]"]
    by (simp add: get_digitalocean_snapshots_def)
next
  assume g: "\<forall>r \<in> set good. hetzner_full_page r"
  show "fst (get_hetzner_snapshots server w)
          = concat (map (\<lambda>r. hetzner_selected server (images_of r)) good)"
    using hetzner_pages_failure [OF assms(1) g assms(2), of server 1 "[]"]
    by (simp add: get_hetzner_snapshots_def)
  show "ends_with_error {''[HETZNER] Failed to fetch snapshots'',
                         ''[HETZNER] Unexpected error fetching snapshots''}
          w (snd (get_hetzner_snapshots server w))"
    using hetzner_pages_failure [OF assms(1) g assms(2), of server 1 "[]"]
    by (simp add: get_hetzner_snapshots_def)
next
  assume e: "good = []"
  then have rep: "replies w = [] @ (took, out) # rest"
    using assms(1) by simp
  have d: "fst (get_digitalocean_snapshots server w) = []"
    using digitalocean_pages_failure [OF rep _ assms(2), of server 1 "[]"]
    by (simp add: get_digitalocean_snapshots_def)
  have h: "fst (get_hetzner_snapshots server w) = []"
    using hetzner_pages_failure [OF rep _ assms(2), of server 1 "[]"]
    by (simp add: get_hetzner_snapshots_def)
  show "fst (get_snapshots server w) = []"
    using d h by (simp add: get_snapshots_def)
qed

theorem listing_failure_returns_pages_so_far_witness:
  "request_fails RequestException
   \<and> digitalocean_full_page
       (1, Response 200 (Snapshots
          [\<lparr>do_resource_id = ''4711'', do_name = ''web-20241201000000'', do_id = ''900'',
            do_created_at = Some 1000\<rparr>] True))
   \<and> fst (get_digitalocean_snapshots
        \<lparr>provider = ''digitalocean'', server_id = ''4711'', server_name = ''web'',
         api_token = ''secret'', retain_last_snapshots = 3, telegram_enabled = False,
         telegram_bot_token = None, telegram_chat_id = None, webhook_enabled = False,
         webhook_url = None\<rparr>
        \<lparr>replies = [(1, Response 200 (Snapshots
            [\<lparr>do_resource_id = ''4711'', do_name = ''web-20241201000000'', do_id = ''900'',
              do_created_at = Some 1000\<rparr>] True)),
           (30, RequestException)],
         sent = [], clock = 0, utc_offset = 0, slept = [], logged = [], final_status = [],
         events = []\<rparr>)
     = [\<lparr>snap_id = ''900'', snap_name = ''web-20241201000000'', created_at = 1000\<rparr>]"
  using listing_failure_returns_pages_so_far
    [of "\<lparr>replies = [(1, Response 200 (Snapshots
            [\<lparr>do_resource_id = ''4711'', do_name = ''web-20241201000000'', do_id = ''900'',
              do_created_at = Some 1000\<rparr>] True)),
           (30, RequestException)],
         sent = [], clock = 0, utc_offset = 0, slept = [], logged = [], final_status = [],
         events = []\<rparr>"
        "[(1, Response 200 (Snapshots
            [\<lparr>do_resource_id = ''4711'', do_name = ''web-20241201000000'', do_id = ''900'',
              do_created_at = Some 1000\<rparr>] True))]"
        30 RequestException "[]"
        "\<lparr>provider = ''digitalocean'', server_id = ''4711'', server_name = ''web'',
         api_token = ''secret'', retain_last_snapshots = 3, telegram_enabled = False,
         telegram_bot_token = None, telegram_chat_id = None, webhook_enabled = False,
         webhook_url = None\<rparr>"]
  by (simp add: request_fails_def digitalocean_full_page_def raise_for_status_def
      snapshots_of_def digitalocean_selected_def)

text \<open>
  C6 as stated fails: the first page of a DigitalOcean listing holds one snapshot of the
  droplet and announces a second page, and the request for the second page raises a
  connection error. The method returns the snapshot of the first page, not the empty
  list.
\<close>

theorem listing_partial_result_counterexample:
  "get_digitalocean_snapshots
     \<lparr>provider = ''digitalocean'', server_id = ''4711'', server_name = ''web'',
      api_token = ''secret'', retain_last_snapshots = 3, telegram_enabled = False,
      telegram_bot_token = None, telegram_chat_id = None, webhook_enabled = False,
      webhook_url = None\<rparr>
     \<lparr>replies = [(1, Response 200 (Snapshots
         [\<lparr>do_resource_id = ''4711'', do_name = ''web-20241201000000'', do_id = ''900'',
           do_created_at = Some 1000\<rparr>] True)),
        (30, RequestException)],
      sent = [], clock = 0, utc_offset = 0, slept = [], logged = [], final_status = [],
      events = []\<rparr>
   = ([\<lparr>snap_id = ''900'', snap_name = ''web-20241201000000'', created_at = 1000\<rparr>],
      \<lparr>replies = [], sent = [GetSnapshots 1, GetSnapshots 2], clock = 31, utc_offset = 0,
       slept = [], logged = [(ERROR, ''[DIGITALOCEAN] Failed to fetch snapshots'')],
       final_status = [],
       events = [Request (GetSnapshots 1), Request (GetSnapshots 2)]\<rparr>)"
  by (simp add: get_digitalocean_snapshots_def digitalocean_pages.simps http_request_def
      raise_for_status_def log_record_def)

section \<open>Creating a snapshot: results\<close>

text \<open>
  C9 (as amended). \<^verbatim>\<open>create_digitalocean_snapshot\<close> and \<^verbatim>\<open>create_hetzner_snapshot\<close> generate
  the name of the new snapshot as the server's name, a hyphen, and the host's local
  wall-clock time at the start of the call formatted \<^verbatim>\<open>YYYYMMDDHHMMSS\<close>: the first
  request of the call is the provider's create request for this server with exactly
  that name, and every later request of the call is a poll of the action. When a name is
  returned it is that name, and the last reply the call consumed is a poll of the
  action, with a status that \<^verbatim>\<open>raise_for_status\<close> accepts, reporting the provider's
  terminal success state (\<^verbatim>\<open>completed\<close> for DigitalOcean, \<^verbatim>\<open>success\<close> for Hetzner). In
  every other case (a failed request, no action id, an action that errors, a timeout,
  an unexpected exception) the call returns nothing.
\<close>

theorem create_snapshot_name_and_success:
  "(\<exists>polls. sent (snd (create_digitalocean_snapshot cfg server w))
        = sent w @ PostDropletAction (server_id server)
                     (server_name server @ ''-'' @ strftime (datetime_now w)) # polls
      \<and> (\<forall>r \<in> set polls. \<exists>aid. r = GetDigitaloceanAction aid))
   \<and> (\<exists>polls. sent (snd (create_hetzner_snapshot cfg server w))
        = sent w @ PostCreateImage (server_id server)
                     (server_name server @ ''-'' @ strftime (datetime_now w)) # polls
      \<and> (\<forall>r \<in> set polls. \<exists>aid. r = GetHetznerAction aid))
   \<and> (create_digitalocean_snapshot cfg server w = (Some n, w') \<longrightarrow>
      n = server_name server @ ''-'' @ strftime (datetime_now w)
      \<and> (\<exists>used took code aid iid.
            replies w = used @ (took, Response code (Action aid iid (Some ''completed'')))
                         # replies w'
            \<and> \<not> raise_for_status code))
   \<and> (create_hetzner_snapshot cfg server w = (Some n, w') \<longrightarrow>
      n = server_name server @ ''-'' @ strftime (datetime_now w)
      \<and> (\<exists>used took code aid iid.
            replies w = used @ (took, Response code (Action aid iid (Some ''success'')))
                         # replies w'
            \<and> \<not> raise_for_status code))"
proof (intro conjI)
  show "\<exists>polls. sent (snd (create_digitalocean_snapshot cfg server w))
        = sent w @ PostDropletAction (server_id server)
                     (server_name server @ ''-'' @ strftime (datetime_now w)) # polls
      \<and> (\<forall>r \<in> set polls. \<exists>aid. r = GetDigitaloceanAction aid)"
    by (rule create_digitalocean_snapshot_posts)
  show "\<exists>polls. sent (snd (create_hetzner_snapshot cfg server w))
        = sent w @ PostCreateImage (server_id server)
                     (server_name server @ ''-'' @ strftime (datetime_now w)) # polls
      \<and> (\<forall>r \<in> set polls. \<exists>aid. r = GetHetznerAction aid)"
    by (rule create_hetzner_snapshot_posts)
  show "create_digitalocean_snapshot cfg server w = (Some n, w') \<longrightarrow>
      n = server_name server @ ''-'' @ strftime (datetime_now w)
      \<and> (\<exists>used took code aid iid.
            replies w = used @ (took, Response code (Action aid iid (Some ''completed'')))
                         # replies w'
            \<and> \<not> raise_for_status code)"
    using create_digitalocean_snapshot_Some [of cfg server w n w'] by blast
  show "create_hetzner_snapshot cfg server w = (Some n, w') \<longrightarrow>
      n = server_name server @ ''-'' @ strftime (datetime_now w)
      \<and> (\<exists>used took code aid iid.
            replies w = used @ (took, Response code (Action aid iid (Some ''success'')))
                         # replies w'
            \<and> \<not> raise_for_status code)"
    using create_hetzner_snapshot_Some [of cfg server w n w'] by blast
qed

text \<open>
  A run in which the action is in progress at the first poll and completed at the
  second, on a host that keeps UTC: the create request carries the name
  \<^verbatim>\<open>web-20241202133234\<close>, two polls follow, and that name is returned.
\<close>

theorem create_snapshot_name_and_success_witness:
  "create_digitalocean_snapshot default_settings droplet_web
     (world_at_noon 0
        [(1, Response 201 (Action (Some 77) None (Some ''in-progress''))),
         (1, Response 200 (Action (Some 77) None (Some ''in-progress''))),
         (1, Response 200 (Action (Some 77) None (Some ''completed'')))])
   = (Some ''web-20241202133234'',
      \<lparr>replies = [],
       sent = [PostDropletAction ''4711'' ''web-20241202133234'',
               GetDigitaloceanAction 77, GetDigitaloceanAction 77],
       clock = 1733146362, utc_offset = 0, slept = [5], logged = [], final_status = [],
       events = [Request (PostDropletAction ''4711'' ''web-20241202133234''),
                 Request (GetDigitaloceanAction 77), Wait 5,
                 Request (GetDigitaloceanAction 77)]\<rparr>)
   \<and> ''web-20241202133234''
       = server_name droplet_web @ ''-'' @ strftime (datetime_now (world_at_noon 0
          [(1, Response 201 (Action (Some 77) None (Some ''in-progress''))),
           (1, Response 200 (Action (Some 77) None (Some ''in-progress''))),
           (1, Response 200 (Action (Some 77) None (Some ''completed'')))]))"
proof -
  let ?w = "world_at_noon 0
        [(1, Response 201 (Action (Some 77) None (Some ''in-progress''))),
         (1, Response 200 (Action (Some 77) None (Some ''in-progress''))),
         (1, Response 200 (Action (Some 77) None (Some ''completed'')))]"
  let ?w' = "\<lparr>replies = [],
       sent = [PostDropletAction ''4711'' ''web-20241202133234'',
               GetDigitaloceanAction 77, GetDigitaloceanAction 77],
       clock = 1733146362, utc_offset = 0, slept = [5], logged = [], final_status = [],
       events = [Request (PostDropletAction ''4711'' ''web-20241202133234''),
                 Request (GetDigitaloceanAction 77), Wait 5,
                 Request (GetDigitaloceanAction 77)]\<rparr>"
  have run: "create_digitalocean_snapshot default_settings droplet_web ?w
               = (Some ''web-20241202133234'', ?w')"
    by code_simp
  then have "''web-20241202133234''
               = server_name droplet_web @ ''-'' @ strftime (datetime_now ?w)"
    using create_snapshot_name_and_success
      [of default_settings droplet_web ?w "''web-20241202133234''" ?w',
       THEN conjunct2, THEN conjunct2, THEN conjunct1]
    by blast
  with run show ?thesis by blast
qed

text \<open>
  C9 as stated fails: on a host whose local time is one hour ahead of UTC, at
  2024-12-02 13:32:34 UTC, the snapshot of server \<^verbatim>\<open>web\<close> is named after the local time
  14:32:34, not after the UTC time.
\<close>

theorem create_snapshot_local_time_counterexample:
  "fst (create_digitalocean_snapshot default_settings droplet_web
     (world_at_noon 3600
        [(1, Response 201 (Action (Some 77) None (Some ''in-progress''))),
         (1, Response 200 (Action (Some 77) None (Some ''completed'')))]))
   = Some ''web-20241202143234''
   \<and> server_name droplet_web @ ''-'' @ strftime (clock (world_at_noon 3600
        [(1, Response 201 (Action (Some 77) None (Some ''in-progress''))),
         (1, Response 200 (Action (Some 77) None (Some ''completed'')))]))
     = ''web-20241202133234''"
  by code_simp

section \<open>Deleting: results\<close>

text \<open>
  C8. \<^verbatim>\<open>delete_digitalocean_snapshots\<close> and \<^verbatim>\<open>delete_hetzner_snapshots\<close> issue one delete
  request for every record of the list, in the list's order, whatever the outcomes of
  the earlier requests; the log grows by what each outcome logs, in the same order. A
  404 logs a warning that the snapshot was already deleted, and no error, as a 204 logs
  no error; every other outcome (another status, a transport error, any other
  exception) logs exactly one error.
\<close>

theorem delete_continues_after_failures:
  "sent (delete_digitalocean_snapshots server snaps w)
     = sent w @ map (\<lambda>snap. DeleteSnapshot (snap_id snap)) snaps
   \<and> logged (delete_digitalocean_snapshots server snaps w)
     = logged w @ concat (map delete_log (answers (length snaps) (replies w)))
   \<and> sent (delete_hetzner_snapshots server snaps w)
     = sent w @ map (\<lambda>snap. DeleteImage (snap_id snap)) snaps
   \<and> logged (delete_hetzner_snapshots server snaps w)
     = logged w @ concat (map delete_log (answers (length snaps) (replies w)))
   \<and> delete_log (Response 404 b) = [(WARNING, ''Snapshot not found (likely already deleted)'')]
   \<and> delete_log (Response 204 b) = []
   \<and> ((\<forall>b'. out \<noteq> Response 204 b' \<and> out \<noteq> Response 404 b')
        \<longrightarrow> (\<exists>msg. delete_log out = [(ERROR, msg)]))"
proof -
  have "(\<forall>b'. out \<noteq> Response 204 b' \<and> out \<noteq> Response 404 b')
        \<longrightarrow> (\<exists>msg. delete_log out = [(ERROR, msg)])"
    by (cases out) (auto simp: delete_log_def)
  moreover have "delete_log (Response 404 b)
                   = [(WARNING, ''Snapshot not found (likely already deleted)'')]"
    and "delete_log (Response 204 b) = []"
    by (simp_all add: delete_log_def)
  moreover have "sent (delete_digitalocean_snapshots server snaps w)
                   = sent w @ map (\<lambda>snap. DeleteSnapshot (snap_id snap)) snaps"
    and "sent (delete_hetzner_snapshots server snaps w)
                   = sent w @ map (\<lambda>snap. DeleteImage (snap_id snap)) snaps"
    by (simp_all add: delete_digitalocean_snapshots_def delete_hetzner_snapshots_def
        delete_each_sent)
  moreover have "logged (delete_digitalocean_snapshots server snaps w)
                   = logged w @ concat (map delete_log (answers (length snaps) (replies w)))"
    and "logged (delete_hetzner_snapshots server snaps w)
                   = logged w @ concat (map delete_log (answers (length snaps) (replies w)))"
    by (simp_all add: delete_digitalocean_snapshots_def delete_hetzner_snapshots_def
        delete_each_logged answers_0)
  ultimately show ?thesis by blast
qed

text \<open>
  Three records; the provider answers 404 for the first, 500 for the second and the
  third request raises a connection error. All three requests are sent.
\<close>

theorem delete_continues_after_failures_witness:
  "delete_digitalocean_snapshots droplet_web
     [\<lparr>snap_id = ''901'', snap_name = ''web-a'', created_at = 300\<rparr>,
      \<lparr>snap_id = ''902'', snap_name = ''web-b'', created_at = 200\<rparr>,
      \<lparr>snap_id = ''903'', snap_name = ''web-c'', created_at = 100\<rparr>]
     (world_at_noon 0 [(1, Response 404 Other), (1, Response 500 Other), (30, RequestException)])
   = \<lparr>replies = [],
      sent = [DeleteSnapshot ''901'', DeleteSnapshot ''902'', DeleteSnapshot ''903''],
      clock = 1733146386, utc_offset = 0, slept = [],
      logged = [(WARNING, ''Snapshot not found (likely already deleted)''),
                (ERROR, ''Failed to delete snapshot (status)''),
                (ERROR, ''Failed to delete snapshot'')],
      final_status = [],
      events = [Request (DeleteSnapshot ''901''), Request (DeleteSnapshot ''902''),
                Request (DeleteSnapshot ''903'')]\<rparr>
   \<and> (\<forall>b'. Response 500 Other \<noteq> Response 204 b' \<and> Response 500 Other \<noteq> Response 404 b')
   \<and> (\<exists>msg. delete_log (Response 500 Other) = [(ERROR, msg)])"
proof -
  have run: "delete_digitalocean_snapshots droplet_web
     [\<lparr>snap_id = ''901'', snap_name = ''web-a'', created_at = 300\<rparr>,
      \<lparr>snap_id = ''902'', snap_name = ''web-b'', created_at = 200\<rparr>,
      \<lparr>snap_id = ''903'', snap_name = ''web-c'', created_at = 100\<rparr>]
     (world_at_noon 0 [(1, Response 404 Other), (1, Response 500 Other), (30, RequestException)])
   = \<lparr>replies = [],
      sent = [DeleteSnapshot ''901'', DeleteSnapshot ''902'', DeleteSnapshot ''903''],
      clock = 1733146386, utc_offset = 0, slept = [],
      logged = [(WARNING, ''Snapshot not found (likely already deleted)''),
                (ERROR, ''Failed to delete snapshot (status)''),
                (ERROR, ''Failed to delete snapshot'')],
      final_status = [],
      events = [Request (DeleteSnapshot ''901''), Request (DeleteSnapshot ''902''),
                Request (DeleteSnapshot ''903'')]\<rparr>"
    by code_simp
  have other: "\<forall>b'. Response 500 Other \<noteq> Response 204 b' \<and> Response 500 Other \<noteq> Response 404 b'"
    by simp
  then have "\<exists>msg. delete_log (Response 500 Other) = [(ERROR, msg)]"
    using delete_continues_after_failures [of droplet_web "[]" "world_at_noon 0 []" Other
        "Response 500 Other"]
    by blast
  with run other show ?thesis by blast
qed

section \<open>Notifications: results\<close>




section \<open>The workflow: results\<close>

text \<open>
  C2. In every pass of \<^verbatim>\<open>manage_snapshots_for_server\<close>, the status written with the
  FINAL\_STATUS line is \<^verbatim>\<open>success\<close> if and only if the create step returned a snapshot
  name; when it returned none (creation failed or timed out) the recorded snapshot name
  is \<^verbatim>\<open>none\<close>. Whatever the create step returned, the delete requests of the pass are
  exactly those for the candidates selected in step 2 from the first listing.
\<close>

theorem workflow_status_follows_creation:
  "(let snapshots = fst (get_snapshots server w);
        to_delete = fst (identify_snapshots_to_delete snapshots (retain_last_snapshots server));
        snapshot_name = fst (create_snapshot cfg server (snd (get_snapshots server w)));
        w' = snd (manage_snapshots_for_server cfg server w)
    in (\<exists>line. final_status w' = final_status w @ [line]
          \<and> (fs_status line = ''success'' \<longleftrightarrow> snapshot_name \<noteq> None)
          \<and> (fs_status line = ''failure'' \<longleftrightarrow> snapshot_name = None)
          \<and> (snapshot_name = None \<longrightarrow> fs_snapshot_name line = ''none'')
          \<and> (\<forall>n. snapshot_name = Some n \<longrightarrow> fs_snapshot_name line = n))
       \<and> filter is_deletion (drop (length (sent w)) (sent w'))
           = map (delete_request server) to_delete)"
proof -
  let ?name = "fst (create_snapshot cfg server (snd (get_snapshots server w)))"
  let ?w' = "snd (manage_snapshots_for_server cfg server w)"
  obtain tot where fs: "final_status ?w' = final_status w @
               [\<lparr>fs_provider = provider server, fs_server = server_name server,
                 fs_status = (if ?name \<noteq> None then ''success'' else ''failure''),
                 fs_snapshot_name = (case ?name of Some n \<Rightarrow> n | None \<Rightarrow> ''none''),
                 fs_total_snapshots = tot\<rparr>]"
    using manage_trace [of server w cfg] by blast
  let ?line = "\<lparr>fs_provider = provider server, fs_server = server_name server,
                 fs_status = (if ?name \<noteq> None then ''success'' else ''failure''),
                 fs_snapshot_name = (case ?name of Some n \<Rightarrow> n | None \<Rightarrow> ''none''),
                 fs_total_snapshots = tot\<rparr>"
  have props: "(fs_status ?line = ''success'' \<longleftrightarrow> ?name \<noteq> None)
          \<and> (fs_status ?line = ''failure'' \<longleftrightarrow> ?name = None)
          \<and> (?name = None \<longrightarrow> fs_snapshot_name ?line = ''none'')
          \<and> (\<forall>n. ?name = Some n \<longrightarrow> fs_snapshot_name ?line = n)"
    by simp
  have "\<exists>line. final_status ?w' = final_status w @ [line]
          \<and> (fs_status line = ''success'' \<longleftrightarrow> ?name \<noteq> None)
          \<and> (fs_status line = ''failure'' \<longleftrightarrow> ?name = None)
          \<and> (?name = None \<longrightarrow> fs_snapshot_name line = ''none'')
          \<and> (\<forall>n. ?name = Some n \<longrightarrow> fs_snapshot_name line = n)"
    by (rule exI [of _ ?line]) (rule conjI [OF fs props])
  moreover have "filter is_deletion (drop (length (sent w)) (sent ?w'))
      = map (delete_request server)
          (fst (identify_snapshots_to_delete (fst (get_snapshots server w))
                 (retain_last_snapshots server)))"
    by (rule manage_deletions)
  ultimately show ?thesis
    unfolding Let_def by (rule conjI)
qed

text \<open>
  The run in which creation times out: the status is \<^verbatim>\<open>failure\<close>, the name \<^verbatim>\<open>none\<close>, and
  the older of the two snapshots is deleted all the same.
\<close>

theorem workflow_status_follows_creation_witness:
  "manage_snapshots_for_server quick_settings droplet_keep_one
     (world_at_noon 0 creation_times_out)
   = (Inr (),
      \<lparr>replies = [],
       sent = [GetSnapshots 1, PostDropletAction ''4711'' ''web-20241202133235'',
               GetDigitaloceanAction 77, GetDigitaloceanAction 77,
               DeleteSnapshot ''900'', GetSnapshots 1],
       clock = 1733146370, utc_offset = 0, slept = [5, 5],
       logged = [(ERROR, ''Snapshot creation failed with status'')],
       final_status = [\<lparr>fs_provider = ''digitalocean'', fs_server = ''web'',
                         fs_status = ''failure'', fs_snapshot_name = ''none'',
                         fs_total_snapshots = 1\<rparr>],
       events = [Request (GetSnapshots 1),
                 Request (PostDropletAction ''4711'' ''web-20241202133235''),
                 Request (GetDigitaloceanAction 77), Wait 5,
                 Request (GetDigitaloceanAction 77), Wait 5,
                 Request (DeleteSnapshot ''900''), Request (GetSnapshots 1)]\<rparr>)
   \<and> fst (create_snapshot quick_settings droplet_keep_one
          (snd (get_snapshots droplet_keep_one (world_at_noon 0 creation_times_out)))) = None
   \<and> filter is_deletion
       (drop (length (sent (world_at_noon 0 creation_times_out)))
          (sent (snd (manage_snapshots_for_server quick_settings droplet_keep_one
                        (world_at_noon 0 creation_times_out)))))
     = [DeleteSnapshot ''900'']"
proof -
  let ?w = "world_at_noon 0 creation_times_out"
  have run: "manage_snapshots_for_server quick_settings droplet_keep_one ?w
   = (Inr (),
      \<lparr>replies = [],
       sent = [GetSnapshots 1, PostDropletAction ''4711'' ''web-20241202133235'',
               GetDigitaloceanAction 77, GetDigitaloceanAction 77,
               DeleteSnapshot ''900'', GetSnapshots 1],
       clock = 1733146370, utc_offset = 0, slept = [5, 5],
       logged = [(ERROR, ''Snapshot creation failed with status'')],
       final_status = [\<lparr>fs_provider = ''digitalocean'', fs_server = ''web'',
                         fs_status = ''failure'', fs_snapshot_name = ''none'',
                         fs_total_snapshots = 1\<rparr>],
       events = [Request (GetSnapshots 1),
                 Request (PostDropletAction ''4711'' ''web-20241202133235''),
                 Request (GetDigitaloceanAction 77), Wait 5,
                 Request (GetDigitaloceanAction 77), Wait 5,
                 Request (DeleteSnapshot ''900''), Request (GetSnapshots 1)]\<rparr>)"
    by code_simp
  have none: "fst (create_snapshot quick_settings droplet_keep_one
                (snd (get_snapshots droplet_keep_one ?w))) = None"
    by code_simp
  have selected: "map (delete_request droplet_keep_one)
      (fst (identify_snapshots_to_delete (fst (get_snapshots droplet_keep_one ?w))
             (retain_last_snapshots droplet_keep_one)))
    = [DeleteSnapshot ''900'']"
    by code_simp
  have "filter is_deletion
       (drop (length (sent ?w))
          (sent (snd (manage_snapshots_for_server quick_settings droplet_keep_one ?w))))
     = map (delete_request droplet_keep_one)
      (fst (identify_snapshots_to_delete (fst (get_snapshots droplet_keep_one ?w))
             (retain_last_snapshots droplet_keep_one)))"
    using workflow_status_follows_creation [of droplet_keep_one ?w quick_settings]
    unfolding Let_def by (rule conjunct2)
  then have "filter is_deletion
       (drop (length (sent ?w))
          (sent (snd (manage_snapshots_for_server quick_settings droplet_keep_one ?w))))
     = [DeleteSnapshot ''900'']"
    by (simp only: selected)
  with run none show ?thesis
    by (intro conjI)
qed

text \<open>
  C7. In every pass of the workflow the deletion candidates are among the records of
  the listing fetched in step 1; that listing is complete before the create request is
  sent, the delete requests are sent after the create step has ended, and they are the
  requests for the candidates and no others. So no delete request is sent for an
  identifier that the first listing did not contain, as that of the snapshot created in
  step 3.
\<close>

theorem new_snapshot_never_deleted:
  "(let snapshots = fst (get_snapshots server w);
        w1 = snd (get_snapshots server w);
        to_delete = fst (identify_snapshots_to_delete snapshots (retain_last_snapshots server));
        w2 = snd (create_snapshot cfg server w1);
        w' = snd (manage_snapshots_for_server cfg server w)
    in set to_delete \<subseteq> set snapshots
       \<and> (\<exists>ls cs rest.
             sent w1 = sent w @ ls \<and> (\<forall>r \<in> set ls. is_listing r)
             \<and> sent w2 = sent w1 @ cs \<and> (\<forall>r \<in> set cs. is_creation r)
             \<and> sent w' = sent w2 @ map (delete_request server) to_delete @ rest
             \<and> (\<forall>r \<in> set rest. \<not> is_deletion r))
       \<and> (\<forall>i. i \<notin> snap_id ` set snapshots \<longrightarrow>
             DeleteSnapshot i \<notin> set (drop (length (sent w)) (sent w'))
             \<and> DeleteImage i \<notin> set (drop (length (sent w)) (sent w'))))"
proof -
  let ?L = "fst (get_snapshots server w)"
  let ?w1 = "snd (get_snapshots server w)"
  let ?D = "fst (identify_snapshots_to_delete ?L (retain_last_snapshots server))"
  let ?w2 = "snd (create_snapshot cfg server ?w1)"
  let ?w' = "snd (manage_snapshots_for_server cfg server w)"
  let ?sent = "drop (length (sent w)) (sent ?w')"
  have sub: "set ?D \<subseteq> set ?L"
    by (rule identify_subset)
  obtain ls cs ls' ns where
    s1: "sent ?w1 = sent w @ ls" and s2: "sent ?w2 = sent ?w1 @ cs"
    and s3: "sent ?w' = sent ?w2 @ map (delete_request server) ?D @ ls' @ ns"
    and k: "\<forall>r \<in> set ls. is_listing r" "\<forall>r \<in> set cs. is_creation r"
      "\<forall>r \<in> set ls'. is_listing r" "\<forall>r \<in> set ns. is_notification r"
    using manage_trace [of server w cfg] by blast
  have rest: "\<forall>r \<in> set (ls' @ ns). \<not> is_deletion r"
    using k(3,4) kinds_not_deletion by auto
  have order: "\<exists>ls cs rest.
             sent ?w1 = sent w @ ls \<and> (\<forall>r \<in> set ls. is_listing r)
             \<and> sent ?w2 = sent ?w1 @ cs \<and> (\<forall>r \<in> set cs. is_creation r)
             \<and> sent ?w' = sent ?w2 @ map (delete_request server) ?D @ rest
             \<and> (\<forall>r \<in> set rest. \<not> is_deletion r)"
    using s1 s2 s3 k(1,2) rest by blast
  have dels: "filter is_deletion ?sent = map (delete_request server) ?D"
    by (rule manage_deletions)
  have fresh: "\<forall>i. i \<notin> snap_id ` set ?L \<longrightarrow>
             DeleteSnapshot i \<notin> set ?sent \<and> DeleteImage i \<notin> set ?sent"
  proof (intro allI impI)
    fix i
    assume new: "i \<notin> snap_id ` set ?L"
    have "\<And>rq. rq = DeleteSnapshot i \<or> rq = DeleteImage i \<Longrightarrow> rq \<notin> set ?sent"
    proof
      fix rq
      assume rq: "rq = DeleteSnapshot i \<or> rq = DeleteImage i" and "rq \<in> set ?sent"
      moreover have "is_deletion rq"
        using rq by (auto simp: is_deletion_def)
      ultimately have "rq \<in> set (filter is_deletion ?sent)"
        by simp
      then obtain snap where "snap \<in> set ?D" and "delete_request server snap = rq"
        unfolding dels by auto
      then have "snap \<in> set ?L" and "snap_id snap = i"
        using sub rq delete_request_id [of server snap i] by auto
      then show False
        using new by blast
    qed
    then show "DeleteSnapshot i \<notin> set ?sent \<and> DeleteImage i \<notin> set ?sent"
      by blast
  qed
  show ?thesis
    unfolding Let_def using sub order fresh by (intro conjI)
qed

text \<open>
  The run in which creation succeeds: the new snapshot, which the second listing shows
  with the identifier 950, is not among the records of the first listing, and no delete
  request is sent for it.
\<close>

theorem new_snapshot_never_deleted_witness:
  "''950'' \<notin> snap_id ` set (fst (get_snapshots droplet_keep_one
                                     (world_at_noon 0 creation_succeeds)))
   \<and> sent (snd (manage_snapshots_for_server quick_settings droplet_keep_one
                  (world_at_noon 0 creation_succeeds)))
     = [GetSnapshots 1, PostDropletAction ''4711'' ''web-20241202133235'',
        GetDigitaloceanAction 77, DeleteSnapshot ''900'', GetSnapshots 1]
   \<and> DeleteSnapshot ''950''
       \<notin> set (drop (length (sent (world_at_noon 0 creation_succeeds)))
                (sent (snd (manage_snapshots_for_server quick_settings droplet_keep_one
                              (world_at_noon 0 creation_succeeds)))))"
proof -
  let ?w = "world_at_noon 0 creation_succeeds"
  have new: "''950'' \<notin> snap_id ` set (fst (get_snapshots droplet_keep_one ?w))"
    by code_simp
  have run: "sent (snd (manage_snapshots_for_server quick_settings droplet_keep_one ?w))
     = [GetSnapshots 1, PostDropletAction ''4711'' ''web-20241202133235'',
        GetDigitaloceanAction 77, DeleteSnapshot ''900'', GetSnapshots 1]"
    by code_simp
  have "\<forall>i. i \<notin> snap_id ` set (fst (get_snapshots droplet_keep_one ?w)) \<longrightarrow>
             DeleteSnapshot i
               \<notin> set (drop (length (sent ?w))
                   (sent (snd (manage_snapshots_for_server quick_settings droplet_keep_one ?w))))
             \<and> DeleteImage i
               \<notin> set (drop (length (sent ?w))
                   (sent (snd (manage_snapshots_for_server quick_settings droplet_keep_one ?w))))"
    using new_snapshot_never_deleted [of droplet_keep_one ?w quick_settings]
    unfolding Let_def by (elim conjE)
  with new have "DeleteSnapshot ''950''
       \<notin> set (drop (length (sent ?w))
                (sent (snd (manage_snapshots_for_server quick_settings droplet_keep_one ?w))))"
    by blast
  with new run show ?thesis
    by (intro conjI)
qed

section \<open>The run: results\<close>




text \<open>
  C10. \<^verbatim>\<open>success_count\<close> counts the passes in which the workflow returned without
  raising, whatever status the workflow recorded: a pass whose workflow returns is
  counted as a success. So when no exception reaches the handler in any pass, every
  server is counted as succeeded, none as failed, and the exit status is 0, also when
  the recorded status of every server is \<^verbatim>\<open>failure\<close>.
\<close>

theorem returned_workflow_counts_as_success:
  "success_count cfg servers w
     = length (filter workflow_returned (passes cfg (length servers) 0 servers w))
   \<and> ((\<forall>p \<in> set (passes cfg (length servers) 0 servers w). \<not> handler_reached p)
        \<longrightarrow> success_count cfg servers w = length servers
          \<and> failure_count cfg servers w = 0
          \<and> exit_code cfg servers w = 0)
   \<and> (fst (manage_snapshots_for_server cfg server w) = Inr ()
        \<longrightarrow> success_count cfg [server] w = 1 \<and> failure_count cfg [server] w = 0
          \<and> exit_code cfg [server] w = 0)"
proof (intro conjI impI)
  let ?ps = "passes cfg (length servers) 0 servers w"
  show "success_count cfg servers w = length (filter workflow_returned ?ps)"
    by (rule counts_passes)
  assume quiet: "\<forall>p \<in> set ?ps. \<not> handler_reached p"
  then have "\<forall>p \<in> set ?ps. workflow_returned p"
    using passes_cases by blast
  then have "filter workflow_returned ?ps = ?ps"
    by simp
  then show "success_count cfg servers w = length servers"
    by (simp add: counts_passes length_passes)
  have "filter handler_reached ?ps = []"
    using quiet by (simp add: filter_empty_conv)
  then show f: "failure_count cfg servers w = 0"
    by (simp add: counts_passes)
  then show "exit_code cfg servers w = 0"
    by (simp add: exit_code_counts)
next
  assume "fst (manage_snapshots_for_server cfg server w) = Inr ()"
  then obtain w1 where m: "manage_snapshots_for_server cfg server w = (Inr (), w1)"
    by (metis prod.collapse)
  show "success_count cfg [server] w = 1" and f: "failure_count cfg [server] w = 0"
    by (simp_all add: success_count_def failure_count_def m)
  then show "exit_code cfg [server] w = 0"
    by (simp add: exit_code_counts)
qed

text \<open>
  Two servers whose provider answers no request: both workflows record the status
  \<^verbatim>\<open>failure\<close> and return, both are counted as succeeded, and the exit status is 0.
\<close>

theorem returned_workflow_counts_as_success_witness:
  "passes default_settings (length [droplet_web, droplet_keep_one]) 0
     [droplet_web, droplet_keep_one] (world_at_noon 0 [])
     = [(True, False), (True, False)]
   \<and> map fs_status (final_status (snd (run default_settings [droplet_web, droplet_keep_one]
                                          (world_at_noon 0 []))))
     = [''failure'', ''failure'']
   \<and> success_count default_settings [droplet_web, droplet_keep_one] (world_at_noon 0 [])
     = length [droplet_web, droplet_keep_one]
   \<and> failure_count default_settings [droplet_web, droplet_keep_one] (world_at_noon 0 []) = 0
   \<and> exit_code default_settings [droplet_web, droplet_keep_one] (world_at_noon 0 []) = 0"
proof -
  let ?servers = "[droplet_web, droplet_keep_one]"
  let ?w = "world_at_noon 0 []"
  have ps: "passes default_settings (length ?servers) 0 ?servers ?w
              = [(True, False), (True, False)]"
    by code_simp
  have quiet: "\<forall>p \<in> set (passes default_settings (length ?servers) 0 ?servers ?w).
                 \<not> handler_reached p"
    unfolding ps by (simp add: handler_reached_def)
  have failed: "map fs_status (final_status (snd (run default_settings ?servers ?w)))
                  = [''failure'', ''failure'']"
    by code_simp
  have "success_count default_settings ?servers ?w = length ?servers
          \<and> failure_count default_settings ?servers ?w = 0
          \<and> exit_code default_settings ?servers ?w = 0"
    using returned_workflow_counts_as_success [of default_settings ?servers ?w] quiet
    by blast
  with ps failed show ?thesis
    by (intro conjI) blast+
qed

end
